theory Spec2Isabelle
  imports Complex_Main "HOL-Library.Log_Nat"
begin

section \<open>JavaScript numbers\<close>

text \<open>
  The editor (\<^verbatim>\<open>src/lib/core.js\<close>) computes with JavaScript Numbers, that is IEEE 754
  binary64 values. Two embeddings are used.

  \<^item> Code that only adds, subtracts, multiplies, divides and rounds (the effect sliders and
    the zoom controller) is modelled on \<open>rat\<close>, every arithmetic operation followed by
    \<open>dbl\<close>, the rounding to the nearest binary64 value (ties to even). \<open>dbl\<close> covers the
    normal range (no overflow to Infinity, no subnormals, no NaN); all values met below
    are zero or lie between \<open>10\<^sup>-\<^sup>3\<close> and \<open>10\<^sup>5\<close> in magnitude.
  \<^item> The pointer geometry uses \<^verbatim>\<open>Math.sqrt\<close>, \<^verbatim>\<open>Math.atan2\<close>, \<^verbatim>\<open>Math.cos\<close> and
    \<^verbatim>\<open>Math.sin\<close>, whose results ECMAScript leaves implementation-approximated. It is
    modelled on \<open>real\<close> with the exact functions: statements about it hold up to the
    rounding of the host's floating point.
\<close>

definition rne :: "rat \<Rightarrow> int" where
  \<comment> \<open>round to the nearest integer, ties to the even one\<close>
  "rne x = (let f = \<lfloor>x\<rfloor>; d = x - of_int f in
     if d < 1/2 then f else if 1/2 < d then f + 1 else if even f then f else f + 1)"

definition flog2 :: "rat \<Rightarrow> int" where
  \<comment> \<open>for \<open>x > 0\<close>: the binary exponent \<open>e\<close> with \<open>2\<^sup>e \<le> x < 2\<^sup>e\<^sup>+\<^sup>1\<close>\<close>
  "flog2 x = (let (p, q) = quotient_of x; e0 = bitlen p - bitlen q in
     if power_int 2 e0 \<le> x then e0 else e0 - 1)"

definition dbl :: "rat \<Rightarrow> rat" where
  \<comment> \<open>the binary64 value nearest to \<open>x\<close>: 53 significant bits\<close>
  "dbl x = (if x = 0 then 0 else
     let u = power_int 2 (flog2 \<bar>x\<bar> - 52) in of_int (rne (x / u)) * u)"

definition fmul :: "rat \<Rightarrow> rat \<Rightarrow> rat" where "fmul a b = dbl (a * b)"
definition fdiv :: "rat \<Rightarrow> rat \<Rightarrow> rat" where "fdiv a b = dbl (a / b)"
definition fadd :: "rat \<Rightarrow> rat \<Rightarrow> rat" where "fadd a b = dbl (a + b)"
definition fsub :: "rat \<Rightarrow> rat \<Rightarrow> rat" where "fsub a b = dbl (a - b)"

definition Math_round :: "rat \<Rightarrow> rat" where
  \<comment> \<open>\<^verbatim>\<open>Math.round\<close>: the nearest integer, a tie going to the larger one\<close>
  "Math_round x = of_int \<lfloor>x + 1/2\<rfloor>"

definition eps53 :: rat where
  \<comment> \<open>half the gap between 1 and the next binary64 value: the relative error of \<open>dbl\<close>\<close>
  "eps53 = 1 / 2 ^ 53"

definition jsParseInt :: "'a::floor_ceiling \<Rightarrow> int" where
  \<comment> \<open>\<^verbatim>\<open>parseInt(n)\<close> on a Number: \<open>n\<close> is printed and the leading integer read back.
      For \<open>n = 0\<close> and \<open>10\<^sup>-\<^sup>6 \<le> |n| < 10\<^sup>2\<^sup>1\<close> the string is in decimal notation and the
      result is \<open>n\<close> truncated toward zero, which is what this definition gives.
      Outside that range the string is in exponent notation; no theorem below
      depends on the value of \<open>jsParseInt\<close> there.\<close>
  "jsParseInt x = (if 0 \<le> x then \<lfloor>x\<rfloor> else \<lceil>x\<rceil>)"

definition js_rem :: "int \<Rightarrow> int \<Rightarrow> int" where
  \<comment> \<open>the \<^verbatim>\<open>%\<close> operator on integers: the sign of the dividend\<close>
  "js_rem a b = sgn a * (\<bar>a\<bar> mod \<bar>b\<bar>)"


section \<open>Effects/filter parameter mapping\<close>

text \<open>
  \<^verbatim>\<open>getCurrentEffect\<close> and \<^verbatim>\<open>getUpdatedFilter\<close> (core.js, lines 2526--2625). A fabric
  filter object carries the one parameter of its class, so \<^verbatim>\<open>x.blur\<close> is
  \<^verbatim>\<open>undefined\<close> on every filter but a Blur: \<^verbatim>\<open>filters.find(x => x.blur)\<close> returns the
  first Blur whose value is truthy (not zero). A gamma array is always truthy.
\<close>

record rgb =
  ch_r :: rat
  ch_g :: rat
  ch_b :: rat

record effects =
  opacity :: rat
  blur :: rat
  brightness :: rat
  saturation :: rat
  gamma :: rgb

datatype filter = Blur rat | Brightness rat | Saturation rat | Gamma rat rat rat

record selection =
  sel_opacity :: rat
  filters :: "filter list"

text \<open>
  The second argument of \<^verbatim>\<open>getUpdatedFilter\<close> is the id of the slider that changed. Its
  one caller (line 1781) passes the ids of the six \<^verbatim>\<open>.effect\<close> inputs: \<^verbatim>\<open>blur\<close>,
  \<^verbatim>\<open>brightness\<close>, \<^verbatim>\<open>saturation\<close>, \<^verbatim>\<open>gamma.r\<close>, \<^verbatim>\<open>gamma.g\<close>, \<^verbatim>\<open>gamma.b\<close>.
\<close>

datatype effect = EBlur | EBrightness | ESaturation | EGammaR | EGammaG | EGammaB

fun has_blur :: "filter \<Rightarrow> bool" where
  "has_blur (Blur v) = (v \<noteq> 0)"
| "has_blur _ = False"

fun has_brightness :: "filter \<Rightarrow> bool" where
  "has_brightness (Brightness v) = (v \<noteq> 0)"
| "has_brightness _ = False"

fun has_saturation :: "filter \<Rightarrow> bool" where
  "has_saturation (Saturation v) = (v \<noteq> 0)"
| "has_saturation _ = False"

fun has_gamma :: "filter \<Rightarrow> bool" where
  "has_gamma (Gamma _ _ _) = True"
| "has_gamma _ = False"

definition neutral :: effects where
  "neutral = \<lparr>opacity = 100, blur = 0, brightness = 50, saturation = 50,
               gamma = \<lparr>ch_r = 45, ch_g = 45, ch_b = 45\<rparr>\<rparr>"

definition getCurrentEffect :: "selection \<Rightarrow> effects" where
  "getCurrentEffect activeSelection =
    (let e1 = neutral\<lparr>opacity := fmul (sel_opacity activeSelection) 100\<rparr>;
         e2 = (case find has_blur (filters activeSelection) of
                 Some (Blur v) \<Rightarrow> e1\<lparr>blur := fmul v 100\<rparr>
               | _ \<Rightarrow> e1);
         e3 = (case find has_brightness (filters activeSelection) of
                 Some (Brightness v) \<Rightarrow> e2\<lparr>brightness := fmul (fdiv (fadd v 1) 2) 100\<rparr>
               | _ \<Rightarrow> e2);
         e4 = (case find has_saturation (filters activeSelection) of
                 Some (Saturation v) \<Rightarrow> e3\<lparr>saturation := fmul (fdiv (fadd v 1) 2) 100\<rparr>
               | _ \<Rightarrow> e3)
     in (case find has_gamma (filters activeSelection) of
           Some (Gamma x y z) \<Rightarrow>
             e4\<lparr>gamma := \<lparr>ch_r = Math_round (fdiv x (dbl (22/1000))),
                            ch_g = Math_round (fdiv y (dbl (22/1000))),
                            ch_b = Math_round (fdiv z (dbl (22/1000)))\<rparr>\<rparr>
         | _ \<Rightarrow> e4))"

fun set_effect :: "effects \<Rightarrow> effect \<Rightarrow> rat \<Rightarrow> effects" where
  \<comment> \<open>the \<^verbatim>\<open>switch\<close> at the head of \<^verbatim>\<open>getUpdatedFilter\<close>\<close>
  "set_effect e EGammaR v = e\<lparr>gamma := (gamma e)\<lparr>ch_r := v\<rparr>\<rparr>"
| "set_effect e EGammaG v = e\<lparr>gamma := (gamma e)\<lparr>ch_g := v\<rparr>\<rparr>"
| "set_effect e EGammaB v = e\<lparr>gamma := (gamma e)\<lparr>ch_b := v\<rparr>\<rparr>"
| "set_effect e EBlur v = e\<lparr>blur := v\<rparr>"
| "set_effect e EBrightness v = e\<lparr>brightness := v\<rparr>"
| "set_effect e ESaturation v = e\<lparr>saturation := v\<rparr>"

definition gamma_value :: "rat \<Rightarrow> rat" where
  \<comment> \<open>\<^verbatim>\<open>Math.round((c * 0.022) * 10) / 10\<close>\<close>
  "gamma_value c = fdiv (Math_round (fmul (fmul c (dbl (22/1000))) 10)) 10"

definition unit_value :: "rat \<Rightarrow> rat" where
  \<comment> \<open>\<^verbatim>\<open>((c / 100) * 2) - 1\<close>\<close>
  "unit_value c = fsub (fmul (fdiv c 100) 2) 1"

definition getUpdatedFilter :: "effects \<Rightarrow> effect \<Rightarrow> rat \<Rightarrow> filter list" where
  "getUpdatedFilter effects0 effect v =
    (let effects = set_effect effects0 effect v in
       (if 0 < blur effects then [Blur (fdiv (blur effects) 100)] else [])
     @ (if brightness effects \<noteq> 50 then [Brightness (unit_value (brightness effects))] else [])
     @ (if saturation effects \<noteq> 50 then [Saturation (unit_value (saturation effects))] else [])
     @ (if ch_r (gamma effects) \<noteq> 45 \<or> ch_g (gamma effects) \<noteq> 45 \<or> ch_b (gamma effects) \<noteq> 45
        then [Gamma (gamma_value (ch_r (gamma effects)))
                    (gamma_value (ch_g (gamma effects)))
                    (gamma_value (ch_b (gamma effects)))]
        else []))"

definition readBack :: "rat \<Rightarrow> effects \<Rightarrow> effect \<Rightarrow> rat \<Rightarrow> effects" where
  \<comment> \<open>the round trip of the slider handler (lines 1780--1781): the filter list built by
      \<^verbatim>\<open>getUpdatedFilter\<close> is stored in the selection and read by \<^verbatim>\<open>getCurrentEffect\<close>\<close>
  "readBack a e effect v =
     getCurrentEffect \<lparr>sel_opacity = a, filters = getUpdatedFilter e effect v\<rparr>"


section \<open>Zoom controller\<close>

text \<open>
  \<^verbatim>\<open>zoomWithKeys\<close> (lines 2189--2243) and \<^verbatim>\<open>applyZoom\<close> (lines 179--183). The canvas
  keeps its zoom factor, read by \<^verbatim>\<open>getZoom\<close> and written by \<^verbatim>\<open>setZoom\<close>. A key event is
  reduced to its key code (\<^verbatim>\<open>e.which || e.keyCode\<close>) and its control modifier.
\<close>

record key_event =
  key :: nat
  ctrlKey :: bool

record canvas =
  zoom :: rat
  width :: rat
  height :: rat
  originalW :: rat
  originalH :: rat

definition minZoom :: rat where "minZoom = dbl (5/100)"
definition maxZoom :: rat where "maxZoom = 3"

definition applyZoom :: "canvas \<Rightarrow> rat \<Rightarrow> canvas" where
  "applyZoom c z = c\<lparr>zoom := z, width := fmul (originalW c) z, height := fmul (originalH c) z\<rparr>"

function dec_to_25 :: "int \<Rightarrow> int" where
  \<comment> \<open>\<^verbatim>\<open>while ((updatedZoom % 25) !== 0) updatedZoom = updatedZoom - 1\<close>\<close>
  "dec_to_25 u = (if js_rem u 25 \<noteq> 0 then dec_to_25 (u - 1) else u)"
  by pat_completeness auto
termination
proof (relation "measure (\<lambda>u. nat (u mod 25))")
  show "wf (measure (\<lambda>u. nat (u mod 25)))" by simp
next
  fix u :: int
  assume "js_rem u 25 \<noteq> 0"
  then have nz: "u mod 25 \<noteq> 0"
    unfolding js_rem_def by (cases "u mod 25 = 0") (auto simp: sgn_if zmod_zminus1_eq_if)
  have r: "0 \<le> u mod 25" "u mod 25 < 25" by simp_all
  have "u - 1 = 25 * (u div 25) + (u mod 25 - 1)" by simp
  then have "(u - 1) mod 25 = u mod 25 - 1"
    using nz r by (intro int_mod_pos_eq[of _ _ "u div 25"]) simp_all
  then show "(u - 1, u) \<in> measure (\<lambda>u. nat (u mod 25))"
    using nz r by simp
qed

function inc_to_25 :: "int \<Rightarrow> int" where
  \<comment> \<open>\<^verbatim>\<open>while ((updatedZoom % 25) !== 0) updatedZoom = updatedZoom + 1\<close>\<close>
  "inc_to_25 u = (if js_rem u 25 \<noteq> 0 then inc_to_25 (u + 1) else u)"
  by pat_completeness auto
termination
proof (relation "measure (\<lambda>u. nat (24 - (u - 1) mod 25))")
  show "wf (measure (\<lambda>u. nat (24 - (u - 1) mod 25)))" by simp
next
  fix u :: int
  assume "js_rem u 25 \<noteq> 0"
  then have nz: "u mod 25 \<noteq> 0"
    unfolding js_rem_def by (cases "u mod 25 = 0") (auto simp: sgn_if zmod_zminus1_eq_if)
  have r: "0 \<le> u mod 25" "u mod 25 < 25" by simp_all
  have "u - 1 = 25 * (u div 25) + (u mod 25 - 1)" by simp
  then have m1: "(u - 1) mod 25 = u mod 25 - 1"
    using nz r by (intro int_mod_pos_eq[of _ _ "u div 25"]) simp_all
  then show "(u + 1, u) \<in> measure (\<lambda>u. nat (24 - (u - 1) mod 25))"
    using nz r by simp
qed

declare dec_to_25.simps [simp del] inc_to_25.simps [simp del]

definition percent :: "rat \<Rightarrow> int" where
  \<comment> \<open>the whole-percent form \<^verbatim>\<open>parseInt(canvas.getZoom() * 100)\<close>\<close>
  "percent z = jsParseInt (fmul z 100)"

definition zoomReset :: "key_event \<Rightarrow> canvas \<Rightarrow> canvas" where
  \<comment> \<open>the third block: Ctrl+0\<close>
  "zoomReset e c =
     (if (key e = 96 \<or> key e = 48 \<or> key e = 192) \<and> ctrlKey e then applyZoom c 1 else c)"

definition zoomIn :: "key_event \<Rightarrow> canvas \<Rightarrow> canvas" where
  \<comment> \<open>the second block, Ctrl+plus, and what follows it; \<^verbatim>\<open>return\<close> leaves the handler\<close>
  "zoomIn e c =
     (if key e = 187 \<and> ctrlKey e then
        (if zoom c = maxZoom then c
         else let u0 = percent (zoom c);
                  u1 = (if js_rem u0 25 \<noteq> 0 then inc_to_25 u0 else u0 + 25);
                  u2 = fdiv (of_int u1) 100;
                  u3 = (if maxZoom < u2 then maxZoom else u2)
              in zoomReset e (applyZoom c u3))
      else zoomReset e c)"

definition zoomWithKeys :: "key_event \<Rightarrow> canvas \<Rightarrow> canvas" where
  \<comment> \<open>the first block, Ctrl+minus, and what follows it\<close>
  "zoomWithKeys e c =
     (if key e = 189 \<and> ctrlKey e then
        (if zoom c = minZoom then c
         else let u0 = percent (zoom c);
                  u1 = (if js_rem u0 25 \<noteq> 0 then dec_to_25 u0 else u0 - 25);
                  u2 = fdiv (of_int u1) 100;
                  u3 = (if u2 \<le> 0 then minZoom else u2)
              in zoomIn e (applyZoom c u3))
      else zoomIn e c)"

definition zoomKeys :: "canvas \<Rightarrow> key_event list \<Rightarrow> canvas" where
  \<comment> \<open>a sequence of key events reaching the \<^verbatim>\<open>keyZoom\<close> listener\<close>
  "zoomKeys c es = foldl (\<lambda>c e. zoomWithKeys e c) c es"

definition ctrlMinus :: key_event where "ctrlMinus = \<lparr>key = 189, ctrlKey = True\<rparr>"
definition ctrlPlus :: key_event where "ctrlPlus = \<lparr>key = 187, ctrlKey = True\<rparr>"

definition canvasAt :: "rat \<Rightarrow> canvas" where
  \<comment> \<open>the 800 by 600 canvas of \<^verbatim>\<open>initializeCanvas\<close>, at zoom \<open>z\<close>\<close>
  "canvasAt z = applyZoom \<lparr>zoom = 1, width = 800, height = 600, originalW = 800, originalH = 600\<rparr> z"


section \<open>Keyboard shortcuts and snapshot history\<close>

text \<open>
  The part of the editor that the \<^verbatim>\<open>keydown\<close> listeners on the document act on. At most
  one object is active (a selection of several objects is a fabric group, which is
  not modelled). \<open>fired\<close> records the events triggered on the canvas; \<open>console\<close> what is
  logged. The listener of \<^verbatim>\<open>object:modified\<close> (lines 319--323), which logs and pushes a
  snapshot of the canvas on the history, is not run by the handlers below: they record
  the event in \<open>fired\<close> and leave \<open>console\<close> and \<open>history\<close> to that listener.
\<close>

record obj =
  obj_left :: real
  obj_top :: real

record 'h editor =
  inputFocused :: bool
  history :: 'h
  objects :: "obj list"
  activeObject :: "nat option"
  fired :: "string list"
  console :: "string list"
  view :: canvas

text \<open>
  \<open>inputFocused\<close> is \<^verbatim>\<open>document.querySelectorAll('textarea:focus, input:focus').length > 0\<close>.

  \<^verbatim>\<open>window.UndoRedoStack\<close>, \<^verbatim>\<open>JSON.parse\<close> and fabric's \<^verbatim>\<open>loadFromJSON\<close> are not part of
  \<^verbatim>\<open>src/\<close>; the functions below take them as parameters. \<open>parse\<close> and \<open>loadFromJSON\<close>
  return \<open>None\<close> where the JavaScript function throws.
\<close>

record 'h stack_api =
  undoValues :: "'h \<Rightarrow> string list"
  redoValues :: "'h \<Rightarrow> string list"
  stackUndo :: "'h \<Rightarrow> 'h"
  stackRedo :: "'h \<Rightarrow> 'h"

record 'j json_api =
  parse :: "string \<Rightarrow> 'j option"
  loadFromJSON :: "'j \<Rightarrow> (obj list \<times> nat option) option"

datatype js_error = TypeError | SyntaxError

datatype 'a completion = Returned 'a | Thrown js_error 'a

definition restore :: "'j json_api \<Rightarrow> string \<Rightarrow> 'h editor \<Rightarrow> 'h editor completion" where
  \<comment> \<open>\<^verbatim>\<open>current && this.canvas.loadFromJSON(JSON.parse(current), ...)\<close>: an empty string is
      falsy; the argument is parsed before the canvas is touched\<close>
  "restore js current s =
     (if current = [] then Returned s
      else case parse js current of
             None \<Rightarrow> Thrown SyntaxError s
           | Some j \<Rightarrow>
               (case loadFromJSON js j of
                  None \<Rightarrow> Thrown TypeError s
                | Some (os, a) \<Rightarrow> Returned (s\<lparr>objects := os, activeObject := a\<rparr>)))"

definition undo_try :: "'h stack_api \<Rightarrow> 'j json_api \<Rightarrow> 'h editor \<Rightarrow> 'h editor completion" where
  \<comment> \<open>the \<^verbatim>\<open>try\<close> block of \<^verbatim>\<open>undo\<close>; \<open>Thrown\<close> carries the state at the throw\<close>
  "undo_try api js s =
     (let undoList = undoValues api (history s) in
      if undoList \<noteq> [] then
        restore js (last undoList) (s\<lparr>history := stackUndo api (history s)\<rparr>)
      else Returned s)"

definition undo :: "'h stack_api \<Rightarrow> 'j json_api \<Rightarrow> 'h editor \<Rightarrow> js_error + 'h editor" where
  \<comment> \<open>lines 119--131; \<open>Inl\<close> would be an exception leaving the handler\<close>
  "undo api js s =
     (case undo_try api js (s\<lparr>console := console s @ [''undo'']\<rparr>) of
        Returned s' \<Rightarrow> Inr s'
      | Thrown _ s' \<Rightarrow> Inr (s'\<lparr>console := console s' @ [''undo failed'']\<rparr>))"

definition redo_try :: "'h stack_api \<Rightarrow> 'j json_api \<Rightarrow> 'h editor \<Rightarrow> 'h editor completion" where
  "redo_try api js s =
     (let redoList = redoValues api (history s) in
      if redoList \<noteq> [] then
        restore js (last redoList) (s\<lparr>history := stackRedo api (history s)\<rparr>)
      else Returned s)"

definition redo :: "'h stack_api \<Rightarrow> 'j json_api \<Rightarrow> 'h editor \<Rightarrow> js_error + 'h editor" where
  \<comment> \<open>lines 136--148\<close>
  "redo api js s =
     (case redo_try api js (s\<lparr>console := console s @ [''redo'']\<rparr>) of
        Returned s' \<Rightarrow> Inr s'
      | Thrown _ s' \<Rightarrow> Inr (s'\<lparr>console := console s' @ [''redo failed'']\<rparr>))"

definition andThen :: "js_error + 'a \<Rightarrow> ('a \<Rightarrow> js_error + 'a) \<Rightarrow> js_error + 'a" where
  \<comment> \<open>sequencing: an exception skips what follows\<close>
  "andThen r f = (case r of Inl x \<Rightarrow> Inl x | Inr s \<Rightarrow> f s)"

definition ctrZY :: "'h stack_api \<Rightarrow> 'j json_api \<Rightarrow> key_event \<Rightarrow> 'h editor \<Rightarrow> js_error + 'h editor" where
  \<comment> \<open>lines 164--171\<close>
  "ctrZY api js e s =
     (if ctrlKey e \<and> \<not> inputFocused s then
        andThen (if key e = 90 then undo api js s else Inr s)
                (\<lambda>s1. if key e = 89 then redo api js s1 else Inr s1)
      else Inr s)"

definition isArrow :: "key_event \<Rightarrow> bool" where
  "isArrow e = (key e = 37 \<or> key e = 38 \<or> key e = 39 \<or> key e = 40)"

definition nudge :: "key_event \<Rightarrow> obj \<Rightarrow> obj" where
  "nudge e ob =
     (if key e = 37 then ob\<lparr>obj_left := obj_left ob - 1\<rparr>
      else if key e = 39 then ob\<lparr>obj_left := obj_left ob + 1\<rparr>
      else if key e = 38 then ob\<lparr>obj_top := obj_top ob - 1\<rparr>
      else if key e = 40 then ob\<lparr>obj_top := obj_top ob + 1\<rparr>
      else ob)"

definition getActiveObject :: "'h editor \<Rightarrow> nat option" where
  "getActiveObject s =
     (case activeObject s of
        Some i \<Rightarrow> if i < length (objects s) then Some i else None
      | None \<Rightarrow> None)"

definition arrowKeys :: "key_event \<Rightarrow> 'h editor \<Rightarrow> 'h editor" where
  \<comment> \<open>lines 331--360\<close>
  "arrowKeys e s =
     (if inputFocused s then s
      else if isArrow e then
        (case getActiveObject s of
           None \<Rightarrow> s
         | Some i \<Rightarrow> s\<lparr>objects := (objects s)[i := nudge e (objects s ! i)],
                        fired := fired s @ [''object:modified'']\<rparr>)
      else s)"

definition deleteKey :: "key_event \<Rightarrow> 'h editor \<Rightarrow> 'h editor" where
  \<comment> \<open>lines 364--378\<close>
  "deleteKey e s =
     (if key e = 46 \<and> \<not> inputFocused s then
        s\<lparr>objects := (case getActiveObject s of
                         None \<Rightarrow> objects s
                       | Some i \<Rightarrow> take i (objects s) @ drop (Suc i) (objects s)),
          activeObject := None,
          fired := fired s @ [''object:modified'']\<rparr>
      else s)"

definition keyZoom :: "key_event \<Rightarrow> 'h editor \<Rightarrow> 'h editor" where
  \<comment> \<open>lines 186--187: \<^verbatim>\<open>const keyZoom = (e) => zoomWithKeys(e, this.canvas, this.applyZoom)\<close>\<close>
  "keyZoom e s = s\<lparr>view := zoomWithKeys e (view s)\<rparr>"

definition documentKeydown :: "'h stack_api \<Rightarrow> 'j json_api \<Rightarrow> key_event \<Rightarrow> 'h editor \<Rightarrow> js_error + 'h editor" where
  \<comment> \<open>the listeners in the order \<^verbatim>\<open>init\<close> registers them. The fifth \<^verbatim>\<open>keydown\<close> listener
      (Escape in the path tool) acts on the path tool's state, modelled further down.\<close>
  "documentKeydown api js e s =
     andThen (ctrZY api js e s) (\<lambda>s1. Inr (keyZoom e (deleteKey e (arrowKeys e s1))))"

definition listStack :: "(string list \<times> string list) stack_api" where
  \<comment> \<open>a stack for the examples: a pair of lists, \<open>undo\<close> moving the newest entry across\<close>
  "listStack = \<lparr>undoValues = fst, redoValues = snd,
                 stackUndo = (\<lambda>(u, r). (butlast u, r @ [last u])),
                 stackRedo = (\<lambda>(u, r). (u @ [last r], butlast r))\<rparr>"

definition noJSON :: "unit json_api" where
  \<comment> \<open>for the examples: every snapshot is malformed\<close>
  "noJSON = \<lparr>parse = (\<lambda>_. None), loadFromJSON = (\<lambda>_. None)\<rparr>"

definition editor0 :: "(string list \<times> string list) editor" where
  "editor0 = \<lparr>inputFocused = True, history = ([''{''], []), objects = [\<lparr>obj_left = 10, obj_top = 20\<rparr>],
               activeObject = Some 0, fired = [], console = [], view = canvasAt 1\<rparr>"


section \<open>Angle snapping and the line tool\<close>

definition atan2 :: "real \<Rightarrow> real \<Rightarrow> real" where
  \<comment> \<open>\<^verbatim>\<open>Math.atan2(y, x)\<close>, in \<open>(-\<pi>, \<pi>]\<close>\<close>
  "atan2 y x =
     (if 0 < x then arctan (y / x)
      else if x < 0 then (if 0 \<le> y then arctan (y / x) + pi else arctan (y / x) - pi)
      else if 0 < y then pi / 2
      else if y < 0 then - (pi / 2)
      else 0)"

definition js_fmod :: "real \<Rightarrow> real \<Rightarrow> real" where
  \<comment> \<open>the \<^verbatim>\<open>%\<close> operator on Numbers: the quotient is truncated toward zero\<close>
  "js_fmod x m = x - m * of_int (if 0 \<le> x / m then \<lfloor>x / m\<rfloor> else \<lceil>x / m\<rceil>)"

definition snapAngle :: "real \<Rightarrow> real \<Rightarrow> real" where
  \<comment> \<open>\<^verbatim>\<open>angle = Math.atan2(y2, x2) / Math.PI * 180\<close>, then
      \<^verbatim>\<open>angle = parseInt(((angle + 7.5) % 360) / 15) * 15\<close>\<close>
  "snapAngle x2 y2 =
     (let angle = atan2 y2 x2 / pi * 180
      in of_int (jsParseInt (js_fmod (angle + 7.5) 360 / 15)) * 15)"

definition angleSnap :: "real \<Rightarrow> real \<Rightarrow> real \<Rightarrow> real \<Rightarrow> real \<times> real" where
  \<comment> \<open>the block under \<^verbatim>\<open>if (o.e.shiftKey)\<close>, the same text in the line tool (lines 736--747)
      and in the path tool (lines 872--884)\<close>
  "angleSnap startX startY pointerX pointerY =
     (let x2 = pointerX - startX;
          y2 = pointerY - startY;
          r = sqrt (x2 * x2 + y2 * y2);
          angle = snapAngle x2 y2;
          cosx = r * cos (angle * pi / 180);
          sinx = r * sin (angle * pi / 180)
      in (cosx + startX, sinx + startY))"

record pointer_event =
  pointerX :: real
  pointerY :: real
  shiftKey :: bool

record line =
  lx1 :: real
  ly1 :: real
  lx2 :: real
  ly2 :: real

text \<open>
  The closure of \<^verbatim>\<open>lineDrawing\<close> (lines 713--768). \<open>pointerPoints\<close> keeps the first two
  entries of the array, the anchor. A handler returns \<open>None\<close> where it would read a
  property of \<^verbatim>\<open>undefined\<close> (a TypeError).
\<close>

record line_tool =
  isDrawingLineMode :: bool
  isDrawingLine :: bool
  pointerPoints :: "(real \<times> real) option"
  lineToDraw :: "line option"
  line_fired :: "string list"

definition line_mouse_down :: "pointer_event \<Rightarrow> line_tool \<Rightarrow> line_tool" where
  "line_mouse_down e s =
     (if \<not> isDrawingLineMode s then s
      else s\<lparr>isDrawingLine := True,
             pointerPoints := Some (pointerX e, pointerY e),
             lineToDraw := Some \<lparr>lx1 = pointerX e, ly1 = pointerY e,
                                  lx2 = pointerX e, ly2 = pointerY e\<rparr>\<rparr>)"

definition line_mouse_move :: "pointer_event \<Rightarrow> line_tool \<Rightarrow> line_tool option" where
  "line_mouse_move e s =
     (if \<not> isDrawingLine s then Some s
      else case lineToDraw s of
             None \<Rightarrow> None
           | Some l \<Rightarrow>
               if shiftKey e then
                 (case pointerPoints s of
                    None \<Rightarrow> None
                  | Some (startX, startY) \<Rightarrow>
                      (case angleSnap startX startY (pointerX e) (pointerY e) of
                         (ex, ey) \<Rightarrow> Some (s\<lparr>lineToDraw := Some (l\<lparr>lx2 := ex, ly2 := ey\<rparr>)\<rparr>)))
               else Some (s\<lparr>lineToDraw := Some (l\<lparr>lx2 := pointerX e, ly2 := pointerY e\<rparr>)\<rparr>))"

definition line_mouse_up :: "line_tool \<Rightarrow> line_tool option" where
  "line_mouse_up s =
     (if \<not> isDrawingLine s then Some s
      else case lineToDraw s of
             None \<Rightarrow> None
           | Some l \<Rightarrow> Some (s\<lparr>isDrawingLine := False,
                                line_fired := line_fired s @ [''object:modified'']\<rparr>))"

definition lineTool0 :: line_tool where
  \<comment> \<open>the line tool selected, nothing drawn yet\<close>
  "lineTool0 = \<lparr>isDrawingLineMode = True, isDrawingLine = False, pointerPoints = None,
                 lineToDraw = None, line_fired = []\<rparr>"

definition pointerAt :: "real \<Rightarrow> real \<Rightarrow> bool \<Rightarrow> pointer_event" where
  "pointerAt x y shift = \<lparr>pointerX = x, pointerY = y, shiftKey = shift\<rparr>"

definition drawLine :: "pointer_event \<Rightarrow> pointer_event \<Rightarrow> line_tool option" where
  \<comment> \<open>press at the first position, move to the second, release\<close>
  "drawLine e0 e1 = Option.bind (line_mouse_move e1 (line_mouse_down e0 lineTool0)) line_mouse_up"

definition distance :: "real \<times> real \<Rightarrow> real \<times> real \<Rightarrow> real" where
  \<comment> \<open>the Euclidean distance of two points\<close>
  "distance p q = sqrt ((fst p - fst q)\<^sup>2 + (snd p - snd q)\<^sup>2)"


section \<open>The path tool\<close>

text \<open>
  The closure of \<^verbatim>\<open>pathDrawing\<close> (lines 792--1054). A path object's \<^verbatim>\<open>path\<close> array holds
  the commands \<^verbatim>\<open>['M', x, y]\<close>, \<^verbatim>\<open>['L', x, y]\<close> and \<^verbatim>\<open>['Q', cx, cy, x, y]\<close>. The canvas and
  the tool share the path object, so the state keeps a store of path arrays by object
  identity, the list of the objects on the canvas, and \<open>pathToDraw\<close> as a reference.
  The width, height and offset that the handlers recompute with fabric's
  \<^verbatim>\<open>_calcDimensions\<close> are functions of the path array and are not stored.
  A handler returns \<open>None\<close> where it would read a property of \<^verbatim>\<open>null\<close> or \<^verbatim>\<open>undefined\<close>,
  or compute a coordinate from \<^verbatim>\<open>undefined\<close>.
\<close>

datatype path_cmd = M real real | L real real | Q real real real real

record path_tool =
  isDrawingPathMode :: bool
  isDrawingPath :: bool
  pathToDraw :: "nat option"
  paths :: "nat \<Rightarrow> path_cmd list option"
  onCanvas :: "nat list"
  updatedPath :: "path_cmd option"
  isMouseDown :: bool
  isDrawingCurve :: bool
  remember :: "(real \<times> real) option"
  path_fired :: "string list"

definition inRange :: "real \<Rightarrow> real \<Rightarrow> real \<Rightarrow> real \<Rightarrow> real \<Rightarrow> bool" where
  \<comment> \<open>lines 781--790\<close>
  "inRange radius cursorX cursorY targetX targetY =
     (\<bar>cursorX - targetX\<bar> \<le> radius \<and> \<bar>cursorY - targetY\<bar> \<le> radius)"

fun elems12 :: "path_cmd \<Rightarrow> real \<times> real" where
  \<comment> \<open>\<^verbatim>\<open>(p[1], p[2])\<close>\<close>
  "elems12 (M x y) = (x, y)"
| "elems12 (L x y) = (x, y)"
| "elems12 (Q cx cy x y) = (cx, cy)"

fun snapPoint :: "path_cmd \<Rightarrow> real \<times> real" where
  \<comment> \<open>the point the snap loop compares with: \<^verbatim>\<open>(p[1], p[2])\<close> of a line or move,
      \<^verbatim>\<open>(p[3], p[4])\<close> of a curve\<close>
  "snapPoint (M x y) = (x, y)"
| "snapPoint (L x y) = (x, y)"
| "snapPoint (Q cx cy x y) = (x, y)"

fun snapTarget :: "real \<Rightarrow> real \<Rightarrow> path_cmd list \<Rightarrow> (real \<times> real) option" where
  \<comment> \<open>\<^verbatim>\<open>for (let p of snapPoints)\<close> with its \<^verbatim>\<open>break\<close>: the first point in range\<close>
  "snapTarget x y [] = None"
| "snapTarget x y (p # ps) =
     (if inRange 10 x y (fst (snapPoint p)) (snd (snapPoint p)) then Some (snapPoint p)
      else snapTarget x y ps)"

definition path_mouse_down :: "nat \<Rightarrow> pointer_event \<Rightarrow> path_tool \<Rightarrow> path_tool option" where
  \<comment> \<open>lines 805--851; \<open>new\<close> is the identity of the object that \<^verbatim>\<open>new fabric.Path\<close> creates\<close>
  "path_mouse_down new e s =
     (if \<not> isDrawingPathMode s then Some s
      else let s1 = s\<lparr>isMouseDown := True, isDrawingPath := True\<rparr> in
        case pathToDraw s1 of
          None \<Rightarrow>
            Some (s1\<lparr>pathToDraw := Some new,
                     paths := (paths s1)(new \<mapsto> [M (pointerX e) (pointerY e),
                                                    L (pointerX e) (pointerY e)]),
                     onCanvas := onCanvas s1 @ [new]\<rparr>)
        | Some i \<Rightarrow>
            (case paths s1 i of
               None \<Rightarrow> None
             | Some p \<Rightarrow> Some (s1\<lparr>paths := (paths s1)(i \<mapsto> p @ [L (pointerX e) (pointerY e)])\<rparr>)))"

definition shiftSnap :: "pointer_event \<Rightarrow> path_cmd list \<Rightarrow> path_cmd \<Rightarrow> path_cmd option" where
  \<comment> \<open>lines 869--887, outside curve editing: \<open>p\<close> is the path after the \<^verbatim>\<open>pop\<close>, \<open>u\<close> the
      line command just built from the pointer\<close>
  "shiftSnap e p u =
     (if shiftKey e then
        (if p = [] then None
         else case elems12 (last p) of
                (startX, startY) \<Rightarrow>
                  (case angleSnap startX startY (pointerX e) (pointerY e) of
                     (ex, ey) \<Rightarrow> Some (L ex ey)))
      else Some u)"

definition proximitySnap :: "pointer_event \<Rightarrow> path_cmd list \<Rightarrow> path_cmd \<Rightarrow> path_cmd" where
  \<comment> \<open>lines 891--911, outside curve editing: \<^verbatim>\<open>snapPoints\<close> is the path without its last
      command\<close>
  "proximitySnap e p u =
     (if 1 < length p then
        (case snapTarget (pointerX e) (pointerY e) (butlast p) of
           Some (tx, ty) \<Rightarrow> L tx ty
         | None \<Rightarrow> u)
      else u)"

definition previewMove :: "pointer_event \<Rightarrow> nat \<Rightarrow> path_cmd list \<Rightarrow> path_tool \<Rightarrow> path_tool option" where
  \<comment> \<open>\<^verbatim>\<open>mouse:move\<close> with \<^verbatim>\<open>isDrawingCurve\<close> false; \<open>p\<close> is the path after the \<^verbatim>\<open>pop\<close>\<close>
  "previewMove e i p s =
     (case shiftSnap e p (L (pointerX e) (pointerY e)) of
        None \<Rightarrow> None
      | Some u1 \<Rightarrow>
          let u2 = proximitySnap e p u1 in
          if isMouseDown s \<and> 1 < length p then
            (case snapPoint (last p) of
               (x, y) \<Rightarrow>
                 Some (s\<lparr>isDrawingCurve := True,
                         updatedPath := Some (Q x y x y),
                         remember := Some (x, y),
                         paths := (paths s)(i \<mapsto> butlast p @ [Q x y x y])\<rparr>))
          else Some (s\<lparr>updatedPath := Some u2, paths := (paths s)(i \<mapsto> p @ [u2])\<rparr>))"

definition curveMove :: "pointer_event \<Rightarrow> nat \<Rightarrow> path_cmd list \<Rightarrow> path_tool \<Rightarrow> path_tool option" where
  \<comment> \<open>\<^verbatim>\<open>mouse:move\<close> with \<^verbatim>\<open>isDrawingCurve\<close> true: only the curve block runs. With the button
      down it reads \<^verbatim>\<open>updatedPath[3]\<close> and \<^verbatim>\<open>updatedPath[4]\<close>, which only a curve command has.\<close>
  "curveMove e i p s =
     (case updatedPath s of
        None \<Rightarrow> None
      | Some u0 \<Rightarrow>
          if isMouseDown s then
            (case (u0, remember s) of
               (Q cx cy x y, Some (rememberX, rememberY)) \<Rightarrow>
                 let mouseMoveX = pointerX e - x;
                     mouseMoveY = pointerY e - y;
                     u = Q (rememberX - mouseMoveX) (rememberY - mouseMoveY) rememberX rememberY
                 in Some (s\<lparr>updatedPath := Some u, paths := (paths s)(i \<mapsto> p @ [u])\<rparr>)
             | _ \<Rightarrow> None)
          else Some (s\<lparr>paths := (paths s)(i \<mapsto> p @ [u0])\<rparr>))"

definition path_mouse_move :: "pointer_event \<Rightarrow> path_tool \<Rightarrow> path_tool option" where
  \<comment> \<open>lines 855--960\<close>
  "path_mouse_move e s =
     (if \<not> isDrawingPathMode s then Some s
      else if \<not> isDrawingPath s then Some s
      else case pathToDraw s of
             None \<Rightarrow> None
           | Some i \<Rightarrow>
               (case paths s i of
                  None \<Rightarrow> None
                | Some p0 \<Rightarrow>
                    if isDrawingCurve s then curveMove e i (butlast p0) s
                    else previewMove e i (butlast p0) s))"


definition cancelDrawing :: "path_tool \<Rightarrow> path_tool option" where
  \<comment> \<open>lines 1007--1036\<close>
  "cancelDrawing s =
     (case pathToDraw s of
        None \<Rightarrow> None
      | Some i \<Rightarrow>
          (case paths s i of
             None \<Rightarrow> None
           | Some p \<Rightarrow>
               let s1 = s\<lparr>paths := (paths s)(i \<mapsto> butlast p)\<rparr>;
                   s2 = (if 1 < length (butlast p) then s1
                         else s1\<lparr>onCanvas := removeAll i (onCanvas s1)\<rparr>)
               in Some (s2\<lparr>path_fired := path_fired s2 @ [''object:modified''],
                           pathToDraw := None,
                           isDrawingPath := False\<rparr>)))"

definition path_keydown :: "key_event \<Rightarrow> path_tool \<Rightarrow> path_tool option" where
  \<comment> \<open>lines 1039--1044: Escape\<close>
  "path_keydown e s =
     (if \<not> isDrawingPath s then Some s
      else if key e = 27 then cancelDrawing s
      else Some s)"

definition path_document_mousedown :: "bool \<Rightarrow> path_tool \<Rightarrow> path_tool option" where
  \<comment> \<open>lines 1046--1052: \<open>inside\<close> is
      \<^verbatim>\<open>document.querySelector('.canvas-container').contains(e.target)\<close>\<close>
  "path_document_mousedown inside s =
     (if \<not> isDrawingPath s then Some s
      else if \<not> inside then cancelDrawing s
      else Some s)"

definition pathTool0 :: path_tool where
  \<comment> \<open>the path tool selected, nothing drawn yet\<close>
  "pathTool0 = \<lparr>isDrawingPathMode = True, isDrawingPath = False, pathToDraw = None,
                 paths = (\<lambda>_. None), onCanvas = [], updatedPath = None, isMouseDown = False,
                 isDrawingCurve = False, remember = None, path_fired = []\<rparr>"

definition previewing :: "path_cmd list \<Rightarrow> path_tool" where
  \<comment> \<open>a path with the array \<open>p\<close> being drawn as object 0, the button released\<close>
  "previewing p = pathTool0\<lparr>isDrawingPath := True, pathToDraw := Some 0,
                            paths := [0 \<mapsto> p], onCanvas := [0]\<rparr>"

definition pathOf :: "path_tool \<Rightarrow> path_cmd list option" where
  \<comment> \<open>\<^verbatim>\<open>pathToDraw.path\<close>\<close>
  "pathOf s = Option.bind (pathToDraw s) (paths s)"


definition escape :: key_event where "escape = \<lparr>key = 27, ctrlKey = False\<rparr>"


section \<open>Properties of the binary64 rounding\<close>

lemma rne_err: "\<bar>of_int (rne x) - x\<bar> \<le> 1/2"
  unfolding rne_def Let_def by (auto simp: abs_if) linarith+

lemma rne_of_int: "rne (of_int k) = k"
  unfolding rne_def Let_def by simp

lemma flog2_bounds:
  assumes "0 < x"
  shows "power_int 2 (flog2 x) \<le> x" and "x < power_int 2 (flog2 x + 1)"
proof -
  obtain p q where pq: "quotient_of x = (p, q)" by (cases "quotient_of x")
  have q: "0 < q" using pq by (rule quotient_of_denom_pos)
  have x: "x = of_int p / of_int q" using pq by (rule quotient_of_div)
  have p: "0 < p" using assms q unfolding x by (simp add: zero_less_divide_iff)
  define a where "a = bitlen p"
  define b where "b = bitlen q"
  have a1: "1 \<le> a" and b1: "1 \<le> b" using p q unfolding a_def b_def by (simp_all add: bitlen_alt_def)
  have pa: "(2::rat) powi (a - 1) \<le> of_int p" "of_int p < (2::rat) powi a"
  proof -
    have "2 ^ nat (a - 1) \<le> p" "p < 2 ^ nat a"
      using bitlen_bounds[OF p] unfolding a_def by simp_all
    then have "(of_int (2 ^ nat (a - 1)) :: rat) \<le> of_int p" "(of_int p :: rat) < of_int (2 ^ nat a)"
      unfolding of_int_le_iff of_int_less_iff by simp_all
    then show "(2::rat) powi (a - 1) \<le> of_int p" "of_int p < (2::rat) powi a"
      using a1 by (simp_all add: power_int_def)
  qed
  have qb: "(2::rat) powi (b - 1) \<le> of_int q" "of_int q < (2::rat) powi b"
  proof -
    have "2 ^ nat (b - 1) \<le> q" "q < 2 ^ nat b"
      using bitlen_bounds[OF q] unfolding b_def by simp_all
    then have "(of_int (2 ^ nat (b - 1)) :: rat) \<le> of_int q" "(of_int q :: rat) < of_int (2 ^ nat b)"
      unfolding of_int_le_iff of_int_less_iff by simp_all
    then show "(2::rat) powi (b - 1) \<le> of_int q" "of_int q < (2::rat) powi b"
      using b1 by (simp_all add: power_int_def)
  qed
  have lo: "(2::rat) powi (a - b - 1) \<le> x"
  proof -
    have "a - b - 1 = (a - 1) - b" by simp
    then have "(2::rat) powi (a - b - 1) = 2 powi (a - 1) / 2 powi b"
      by (simp only: power_int_diff[of "2::rat" "a - 1" b, simplified])
    also have "\<dots> \<le> of_int p / 2 powi b"
      using pa(1) by (simp add: divide_right_mono)
    also have "\<dots> \<le> of_int p / of_int q"
      using qb(2) p q by (simp add: frac_le)
    finally show ?thesis unfolding x .
  qed
  have hi: "x < (2::rat) powi (a - b + 1)"
  proof -
    have "of_int p / of_int q < (2::rat) powi a / of_int q"
      using pa(2) q by (simp add: divide_strict_right_mono)
    also have "\<dots> \<le> 2 powi a / 2 powi (b - 1)"
      using qb(1) by (simp add: frac_le)
    also have "\<dots> = 2 powi (a - (b - 1))"
      by (simp only: power_int_diff[of "2::rat" a "b - 1", simplified])
    also have "a - (b - 1) = a - b + 1" by simp
    finally show ?thesis unfolding x .
  qed
  have e: "flog2 x = (if (2::rat) powi (a - b) \<le> x then a - b else a - b - 1)"
    unfolding flog2_def pq a_def b_def by simp
  show "power_int 2 (flog2 x) \<le> x" using lo unfolding e by auto
  show "x < power_int 2 (flog2 x + 1)" using hi unfolding e by auto
qed


lemma dbl_err: "\<bar>dbl x - x\<bar> \<le> \<bar>x\<bar> / 2 ^ 53"
proof (cases "x = 0")
  case True
  then show ?thesis by (simp add: dbl_def)
next
  case False
  define e where "e = flog2 \<bar>x\<bar>"
  define u :: rat where "u = 2 powi (e - 52)"
  have u0: "0 < u" unfolding u_def by simp
  have lo: "2 powi e \<le> \<bar>x\<bar>" unfolding e_def using flog2_bounds(1)[of "\<bar>x\<bar>"] False by simp
  have d: "dbl x = of_int (rne (x / u)) * u"
    using False unfolding dbl_def u_def e_def by (simp add: Let_def)
  have "dbl x - x = (of_int (rne (x / u)) - x / u) * u"
    unfolding d using u0 by (simp add: field_simps)
  then have "\<bar>dbl x - x\<bar> = \<bar>of_int (rne (x / u)) - x / u\<bar> * u"
    using u0 by (simp add: abs_mult)
  also have "\<dots> \<le> (1/2) * u"
    using rne_err[of "x / u"] u0 by (intro mult_right_mono) simp_all
  also have "\<dots> = 2 powi e / 2 ^ 53"
    unfolding u_def by (simp add: power_int_diff)
  also have "\<dots> \<le> \<bar>x\<bar> / 2 ^ 53"
    using lo by (simp add: divide_right_mono)
  finally show ?thesis .
qed

lemma dbl_quarter:
  assumes "0 \<le> n" "n < 2 ^ 50"
  shows "dbl (of_int n / 4) = of_int n / 4"
proof (cases "n = 0")
  case True
  then show ?thesis by (simp add: dbl_def)
next
  case False
  define x :: rat where "x = of_int n / 4"
  have xpos: "0 < x" using assms False unfolding x_def by simp
  define e where "e = flog2 x"
  have "2 powi e \<le> x" unfolding e_def using flog2_bounds(1)[OF xpos] .
  also have "x < 2 ^ 48"
  proof -
    have "(of_int n :: rat) < of_int (2 ^ 50)" using assms(2) unfolding of_int_less_iff .
    then show ?thesis unfolding x_def by simp
  qed
  finally have "(2::rat) powi e < 2 powi 48" by simp
  then have e48: "e < 48"
    using power_int_increasing[of 48 e "2::rat"] by (cases "e < 48") simp_all
  define k where "k = nat (50 - e)"
  have k: "int k = 50 - e" using e48 unfolding k_def by simp
  have p2: "(2::rat) powi (e - 52) = 2 powi (- 2) / 2 powi (50 - e)"
  proof -
    have eq: "e - 52 = - 2 - (50 - e)" by simp
    have "(2::rat) powi (- 2 - (50 - e)) = 2 powi (- 2) / 2 powi (50 - e)"
      by (rule power_int_diff) simp
    then show ?thesis unfolding eq .
  qed
  have pk: "(2::rat) powi (50 - e) = 2 ^ k"
    using k by (metis power_int_of_nat)
  have xu: "x / 2 powi (e - 52) = of_int (n * 2 ^ k)"
    unfolding p2 pk x_def by (simp add: power_int_minus field_simps)
  have "dbl x = of_int (rne (x / 2 powi (e - 52))) * 2 powi (e - 52)"
    using xpos unfolding dbl_def e_def by (simp add: Let_def)
  also have "\<dots> = of_int (n * 2 ^ k) * 2 powi (e - 52)"
    unfolding xu rne_of_int ..
  also have "\<dots> = x"
    unfolding p2 pk x_def by (simp add: power_int_minus field_simps)
  finally show ?thesis unfolding x_def .
qed


lemma dbl_abs:
  assumes "\<bar>x\<bar> \<le> B"
  shows "\<bar>dbl x - x\<bar> \<le> B / 2 ^ 53"
proof -
  have "\<bar>dbl x - x\<bar> \<le> \<bar>x\<bar> / 2 ^ 53" by (rule dbl_err)
  also have "\<dots> \<le> B / 2 ^ 53" using assms by (simp add: divide_right_mono)
  finally show ?thesis .
qed

section \<open>The effect round trip\<close>

text \<open>What \<^verbatim>\<open>getCurrentEffect\<close> reads from the list that \<^verbatim>\<open>getUpdatedFilter\<close> builds.\<close>

lemma blur_read:
  "blur (readBack a e EBlur v) =
     (if 0 < v \<and> fdiv v 100 \<noteq> 0 then fmul (fdiv v 100) 100 else 0)"
  by (simp add: readBack_def getCurrentEffect_def getUpdatedFilter_def neutral_def Let_def)

lemma brightness_read:
  "brightness (readBack a e EBrightness v) =
     (if v \<noteq> 50 \<and> unit_value v \<noteq> 0 then fmul (fdiv (fadd (unit_value v) 1) 2) 100 else 50)"
  by (simp add: readBack_def getCurrentEffect_def getUpdatedFilter_def neutral_def Let_def)

lemma saturation_read:
  "saturation (readBack a e ESaturation v) =
     (if v \<noteq> 50 \<and> unit_value v \<noteq> 0 then fmul (fdiv (fadd (unit_value v) 1) 2) 100 else 50)"
  by (simp add: readBack_def getCurrentEffect_def getUpdatedFilter_def neutral_def Let_def)

lemma gamma_r_read:
  "ch_r (gamma (readBack a e EGammaR v)) =
     (if v \<noteq> 45 \<or> ch_g (gamma e) \<noteq> 45 \<or> ch_b (gamma e) \<noteq> 45
      then Math_round (fdiv (gamma_value v) (dbl (22/1000))) else 45)"
  by (simp add: readBack_def getCurrentEffect_def getUpdatedFilter_def neutral_def Let_def)

lemma gamma_g_read:
  "ch_g (gamma (readBack a e EGammaG v)) =
     (if ch_r (gamma e) \<noteq> 45 \<or> v \<noteq> 45 \<or> ch_b (gamma e) \<noteq> 45
      then Math_round (fdiv (gamma_value v) (dbl (22/1000))) else 45)"
  by (simp add: readBack_def getCurrentEffect_def getUpdatedFilter_def neutral_def Let_def)

lemma gamma_b_read:
  "ch_b (gamma (readBack a e EGammaB v)) =
     (if ch_r (gamma e) \<noteq> 45 \<or> ch_g (gamma e) \<noteq> 45 \<or> v \<noteq> 45
      then Math_round (fdiv (gamma_value v) (dbl (22/1000))) else 45)"
  by (simp add: readBack_def getCurrentEffect_def getUpdatedFilter_def neutral_def Let_def)


lemma eps53_bounds: "0 < eps53" "eps53 \<le> 1 / 1000000000000000"
  by (simp_all add: eps53_def)

lemma dbl_between:
  assumes "- B \<le> x" "x \<le> B"
  shows "x - B * eps53 \<le> dbl x" "dbl x \<le> x + B * eps53"
proof -
  have "\<bar>x\<bar> \<le> B" using assms by (simp add: abs_le_iff)
  from dbl_abs[OF this] have "\<bar>dbl x - x\<bar> \<le> B * eps53" by (simp add: eps53_def)
  then show "x - B * eps53 \<le> dbl x" "dbl x \<le> x + B * eps53"
    by (simp_all add: abs_le_iff)
qed

text \<open>The rounding errors of the two formulas, one operation at a time.\<close>

lemma blur_arith:
  assumes "0 \<le> v" "v \<le> 100"
  shows "\<bar>fmul (fdiv v 100) 100 - v\<bar> \<le> 1 / 10 ^ 12"
    and "fdiv v 100 = 0 \<Longrightarrow> \<bar>0 - v\<bar> \<le> 1 / 10 ^ 12"
proof -
  note e = eps53_bounds
  define a where "a = dbl (v / 100)"
  have a: "v / 100 - 1 * eps53 \<le> a" "a \<le> v / 100 + 1 * eps53"
    unfolding a_def using assms by (intro dbl_between; simp)+
  define g where "g = dbl (a * 100)"
  have g: "a * 100 - 101 * eps53 \<le> g" "g \<le> a * 100 + 101 * eps53"
    unfolding g_def using a e assms by (intro dbl_between; linarith)+
  have eq: "fmul (fdiv v 100) 100 = g" unfolding g_def a_def fmul_def fdiv_def ..
  show "\<bar>fmul (fdiv v 100) 100 - v\<bar> \<le> 1 / 10 ^ 12"
    unfolding eq using a g e by (intro abs_leI; simp; linarith)
  show "fdiv v 100 = 0 \<Longrightarrow> \<bar>0 - v\<bar> \<le> 1 / 10 ^ 12"
    unfolding fdiv_def a_def[symmetric] using a e assms by (intro abs_leI; simp; linarith)
qed

lemma unit_arith:
  assumes "0 \<le> v" "v \<le> 100"
  shows "\<bar>fmul (fdiv (fadd (unit_value v) 1) 2) 100 - v\<bar> \<le> 1 / 10 ^ 12"
    and "unit_value v = 0 \<Longrightarrow> \<bar>50 - v\<bar> \<le> 1 / 10 ^ 12"
proof -
  note e = eps53_bounds
  define a where "a = dbl (v / 100)"
  define b where "b = dbl (a * 2)"
  define c where "c = dbl (b - 1)"
  define d where "d = dbl (c + 1)"
  define f where "f = dbl (d / 2)"
  define g where "g = dbl (f * 100)"
  have a: "v / 100 - 1 * eps53 \<le> a" "a \<le> v / 100 + 1 * eps53"
    unfolding a_def using assms by (intro dbl_between; simp)+
  have b: "a * 2 - 3 * eps53 \<le> b" "b \<le> a * 2 + 3 * eps53"
    unfolding b_def using a e assms by (intro dbl_between; linarith)+
  have c: "(b - 1) - 2 * eps53 \<le> c" "c \<le> (b - 1) + 2 * eps53"
    unfolding c_def using a b e assms by (intro dbl_between; linarith)+
  have d: "(c + 1) - 3 * eps53 \<le> d" "d \<le> (c + 1) + 3 * eps53"
    unfolding d_def using a b c e assms by (intro dbl_between; linarith)+
  have f: "d / 2 - 2 * eps53 \<le> f" "f \<le> d / 2 + 2 * eps53"
    unfolding f_def using a b c d e assms by (intro dbl_between; linarith)+
  have g: "f * 100 - 200 * eps53 \<le> g" "g \<le> f * 100 + 200 * eps53"
    unfolding g_def using a b c d f e assms by (intro dbl_between; linarith)+
  have eq: "fmul (fdiv (fadd (unit_value v) 1) 2) 100 = g"
    unfolding g_def f_def d_def c_def b_def a_def unit_value_def fmul_def fdiv_def fadd_def fsub_def ..
  show "\<bar>fmul (fdiv (fadd (unit_value v) 1) 2) 100 - v\<bar> \<le> 1 / 10 ^ 12"
    unfolding eq using a b c d f g e by (intro abs_leI; simp; linarith)
  have uv: "unit_value v = c"
    unfolding c_def b_def a_def unit_value_def fmul_def fdiv_def fsub_def ..
  show "unit_value v = 0 \<Longrightarrow> \<bar>50 - v\<bar> \<le> 1 / 10 ^ 12"
    unfolding uv using a b c e by (intro abs_leI; simp; linarith)
qed


lemma gamma_arith:
  assumes v: "0 \<le> v" "v \<le> 100"
  obtains k :: int where
    "0 \<le> k" "k \<le> 22"
    "of_int k - 1 / 2 - 1053 * eps53 \<le> 22 * v / 100"
    "22 * v / 100 < of_int k + 1 / 2 + 1053 * eps53"
    "of_int k * 100 / 22 - 6000 * eps53 \<le> fdiv (gamma_value v) (dbl (22 / 1000))"
    "fdiv (gamma_value v) (dbl (22 / 1000)) \<le> of_int k * 100 / 22 + 6000 * eps53"
proof -
  note e = eps53_bounds
  define c where "c = dbl (22 / 1000)"
  have c: "22 / 1000 - 1 * eps53 \<le> c" "c \<le> 22 / 1000 + 1 * eps53"
    unfolding c_def by (intro dbl_between; simp)+
  have c0: "0 < c" "1 / 50 \<le> c" using c e by linarith+
  define w where "w = v * c"
  have w: "22 * v / 1000 - 100 * eps53 \<le> w" "w \<le> 22 * v / 1000 + 100 * eps53"
  proof -
    have "v * (22 / 1000 - 1 * eps53) \<le> v * c" using c(1) v(1) by (rule mult_left_mono)
    moreover have "v * c \<le> v * (22 / 1000 + 1 * eps53)" using c(2) v(1) by (rule mult_left_mono)
    moreover have "v * eps53 \<le> 100 * eps53" using v(2) e(1) by (simp add: mult_right_mono)
    ultimately show "22 * v / 1000 - 100 * eps53 \<le> w" "w \<le> 22 * v / 1000 + 100 * eps53"
      unfolding w_def by (simp_all add: algebra_simps)
  qed
  define y1 where "y1 = dbl w"
  have y1: "w - 3 * eps53 \<le> y1" "y1 \<le> w + 3 * eps53"
    unfolding y1_def using w e v by (intro dbl_between; linarith)+
  define y2 where "y2 = dbl (y1 * 10)"
  have y2: "y1 * 10 - 23 * eps53 \<le> y2" "y2 \<le> y1 * 10 + 23 * eps53"
    unfolding y2_def using y1 w e v by (intro dbl_between; linarith)+
  define k where "k = \<lfloor>y2 + 1 / 2\<rfloor>"
  have k: "of_int k \<le> y2 + 1 / 2" "y2 + 1 / 2 < of_int k + 1"
    unfolding k_def by linarith+
  have k0: "0 \<le> k"
  proof -
    have "0 \<le> y2 + 1 / 2" using y2 y1 w e v by linarith
    then show ?thesis unfolding k_def by simp
  qed
  have k22: "k \<le> 22"
  proof -
    have "y2 + 1 / 2 < 23" using y2 y1 w e v by linarith
    then have "k < 23" unfolding k_def by (simp add: floor_less_iff)
    then show ?thesis by simp
  qed
  have kr: "(0::rat) \<le> of_int k" "(of_int k :: rat) \<le> 22" using k0 k22 by simp_all
  define g where "g = dbl (of_int k / 10)"
  have g: "of_int k / 10 - 3 * eps53 \<le> g" "g \<le> of_int k / 10 + 3 * eps53"
    unfolding g_def using kr by (intro dbl_between; linarith)+
  have gv: "gamma_value v = g"
    unfolding g_def k_def y2_def y1_def w_def c_def gamma_value_def fmul_def fdiv_def Math_round_def ..
  define K :: rat where "K = of_int k * 100 / 22"
  have K: "0 \<le> K" "K \<le> 100" "K * 22 / 1000 = of_int k / 10"
    unfolding K_def using kr by simp_all
  have Kc: "of_int k / 10 - 100 * eps53 \<le> K * c" "K * c \<le> of_int k / 10 + 100 * eps53"
  proof -
    have "K * (22 / 1000 - 1 * eps53) \<le> K * c" using c(1) K(1) by (rule mult_left_mono)
    moreover have "K * c \<le> K * (22 / 1000 + 1 * eps53)" using c(2) K(1) by (rule mult_left_mono)
    moreover have "K * eps53 \<le> 100 * eps53" using K(2) e(1) by (simp add: mult_right_mono)
    ultimately show "of_int k / 10 - 100 * eps53 \<le> K * c" "K * c \<le> of_int k / 10 + 100 * eps53"
      using K(3) by (simp_all add: algebra_simps)
  qed
  have ec: "5150 * eps53 * (1 / 50) \<le> 5150 * eps53 * c"
    using c0(2) e(1) by (intro mult_left_mono) simp_all
  define q where "q = g / c"
  have q: "K - 5150 * eps53 \<le> q" "q \<le> K + 5150 * eps53"
  proof -
    have "(K - 5150 * eps53) * c \<le> g" using g Kc ec by (simp add: algebra_simps)
    then show "K - 5150 * eps53 \<le> q" unfolding q_def using c0(1) by (simp add: pos_le_divide_eq)
    have "g \<le> (K + 5150 * eps53) * c" using g Kc ec by (simp add: algebra_simps)
    then show "q \<le> K + 5150 * eps53" unfolding q_def using c0(1) by (simp add: pos_divide_le_eq)
  qed
  define z where "z = dbl q"
  have z: "q - 101 * eps53 \<le> z" "z \<le> q + 101 * eps53"
    unfolding z_def using q K e by (intro dbl_between; linarith)+
  have zv: "fdiv (gamma_value v) (dbl (22 / 1000)) = z"
    unfolding z_def q_def gv c_def fdiv_def ..
  show ?thesis
  proof (rule that[of k])
    show "0 \<le> k" "k \<le> 22" by (rule k0, rule k22)
    show "of_int k - 1 / 2 - 1053 * eps53 \<le> 22 * v / 100"
      using k y2 y1 w by linarith
    show "22 * v / 100 < of_int k + 1 / 2 + 1053 * eps53"
      using k y2 y1 w by linarith
    show "of_int k * 100 / 22 - 6000 * eps53 \<le> fdiv (gamma_value v) (dbl (22 / 1000))"
      unfolding zv using z q e unfolding K_def by linarith
    show "fdiv (gamma_value v) (dbl (22 / 1000)) \<le> of_int k * 100 / 22 + 6000 * eps53"
      unfolding zv using z q e unfolding K_def by linarith
  qed
qed

lemma gamma_roundtrip_int:
  fixes n :: int
  assumes "0 \<le> n" "n \<le> 100"
  shows "\<bar>Math_round (fdiv (gamma_value (of_int n)) (dbl (22 / 1000))) - of_int n\<bar> \<le> 2"
proof -
  note e = eps53_bounds
  define v :: rat where "v = of_int n"
  have v: "0 \<le> v" "v \<le> 100" unfolding v_def using assms by simp_all
  obtain k :: int where k:
    "of_int k - 1 / 2 - 1053 * eps53 \<le> 22 * v / 100"
    "22 * v / 100 < of_int k + 1 / 2 + 1053 * eps53"
    "of_int k * 100 / 22 - 6000 * eps53 \<le> fdiv (gamma_value v) (dbl (22 / 1000))"
    "fdiv (gamma_value v) (dbl (22 / 1000)) \<le> of_int k * 100 / 22 + 6000 * eps53"
    using gamma_arith[OF v] by metis
  define z where "z = fdiv (gamma_value v) (dbl (22 / 1000))"
  define m where "m = \<lfloor>z + 1 / 2\<rfloor>"
  have m: "of_int m \<le> z + 1 / 2" "z + 1 / 2 < of_int m + 1"
    unfolding m_def by linarith+
  have "(of_int m :: rat) < of_int n + 3" "(of_int n :: rat) - 3 < of_int m"
    using m k[folded z_def] e unfolding v_def by linarith+
  then have "m < n + 3" "n - 3 < m" by linarith+
  then have "\<bar>m - n\<bar> \<le> 2" by linarith
  then have "\<bar>(of_int (m - n) :: rat)\<bar> \<le> of_int 2" 
    by (simp only: of_int_abs[symmetric] of_int_le_iff)
  then show ?thesis
    unfolding Math_round_def v_def[symmetric] z_def[symmetric] m_def[symmetric]
    by (simp add: v_def)
qed

lemma gamma_roundtrip_45:
  "Math_round (fdiv (gamma_value 45) (dbl (22 / 1000))) = 45"
proof -
  note e = eps53_bounds
  obtain k :: int where k:
    "of_int k - 1 / 2 - 1053 * eps53 \<le> 22 * (45::rat) / 100"
    "22 * (45::rat) / 100 < of_int k + 1 / 2 + 1053 * eps53"
    "of_int k * 100 / 22 - 6000 * eps53 \<le> fdiv (gamma_value 45) (dbl (22 / 1000))"
    "fdiv (gamma_value 45) (dbl (22 / 1000)) \<le> of_int k * 100 / 22 + 6000 * eps53"
    using gamma_arith[of 45] by auto
  have "(of_int k :: rat) < 11" "(9::rat) < of_int k" using k(1,2) e by linarith+
  then have "k < 11" "9 < k" by linarith+
  then have k10: "k = 10" by simp
  define z where "z = fdiv (gamma_value 45) (dbl (22 / 1000))"
  have "(45::rat) \<le> z + 1 / 2" "z + 1 / 2 < 46"
    using k(3,4) e unfolding k10 z_def by simp_all
  then have "\<lfloor>z + 1 / 2\<rfloor> = 45" by (simp add: floor_unique)
  then show ?thesis unfolding Math_round_def z_def by simp
qed


section \<open>The zoom steps\<close>

lemma js_rem_25: "js_rem u 25 \<noteq> 0 \<longleftrightarrow> u mod 25 \<noteq> 0"
  unfolding js_rem_def by (cases "u mod 25 = 0") (auto simp: sgn_if zmod_zminus1_eq_if)

lemma pred_div_25:
  fixes u :: int
  assumes "u mod 25 \<noteq> 0"
  shows "(u - 1) div 25 = u div 25" "(u + 24) div 25 = u div 25 + 1"
proof -
  have r: "0 \<le> u mod 25" "u mod 25 < 25" by simp_all
  have "u - 1 = 25 * (u div 25) + (u mod 25 - 1)" by simp
  then show "(u - 1) div 25 = u div 25"
    using assms r by (intro int_div_pos_eq[of _ _ _ "u mod 25 - 1"]) simp_all
  have "u + 24 = 25 * (u div 25 + 1) + (u mod 25 - 1)" by simp
  then show "(u + 24) div 25 = u div 25 + 1"
    using assms r by (intro int_div_pos_eq[of _ _ _ "u mod 25 - 1"]) simp_all
qed

lemma dec_to_25_eq: "dec_to_25 u = 25 * (u div 25)"
proof (induction u rule: dec_to_25.induct)
  case (1 u)
  show ?case
  proof (cases "u mod 25 = 0")
    case True
    then have "js_rem u 25 = 0" using js_rem_25[of u] by simp
    then have "dec_to_25 u = u" by (subst dec_to_25.simps) simp
    also have "u = 25 * (u div 25)" using True by (simp add: mod_eq_0_iff_dvd)
    finally show ?thesis .
  next
    case False
    then have j: "js_rem u 25 \<noteq> 0" using js_rem_25[of u] by simp
    then have "dec_to_25 u = dec_to_25 (u - 1)" by (subst dec_to_25.simps) simp
    also have "\<dots> = 25 * ((u - 1) div 25)" using "1.IH"[OF j] .
    finally show ?thesis using pred_div_25(1)[OF False] by simp
  qed
qed

lemma inc_to_25_eq: "inc_to_25 u = 25 * ((u + 24) div 25)"
proof (induction u rule: inc_to_25.induct)
  case (1 u)
  show ?case
  proof (cases "u mod 25 = 0")
    case True
    then have "js_rem u 25 = 0" using js_rem_25[of u] by simp
    then have "inc_to_25 u = u" by (subst inc_to_25.simps) simp
    moreover have "u = 25 * (u div 25)" using True by (simp add: mod_eq_0_iff_dvd)
    moreover have "(u + 24) div 25 = u div 25"
    proof -
      have "u + 24 = 25 * (u div 25) + 24" using True by (simp add: mod_eq_0_iff_dvd)
      then show ?thesis by (intro int_div_pos_eq[of _ _ _ 24]) simp_all
    qed
    ultimately show ?thesis by simp
  next
    case False
    then have j: "js_rem u 25 \<noteq> 0" using js_rem_25[of u] by simp
    then have "inc_to_25 u = inc_to_25 (u + 1)" by (subst inc_to_25.simps) simp
    also have "\<dots> = 25 * ((u + 1 + 24) div 25)" using "1.IH"[OF j] .
    also have "(u + 1 + 24) div 25 = u div 25 + 1"
    proof -
      have "u + 1 + 24 = 25 * (u div 25 + 1) + u mod 25" by simp
      then show ?thesis by (intro int_div_pos_eq[of _ _ _ "u mod 25"]) simp_all
    qed
    finally show ?thesis using pred_div_25(2)[OF False] by simp
  qed
qed

lemma minZoom_value: "minZoom = 3602879701896397 / 72057594037927936"
  unfolding minZoom_def by code_simp

lemma minZoom_range: "1 / 20 \<le> minZoom" "minZoom \<le> 3" "0 < minZoom"
  unfolding minZoom_value by simp_all

lemma percent_range:
  assumes "1 / 20 \<le> z" "z \<le> 3"
  shows "4 \<le> percent z" "percent z \<le> 300" "of_int (percent z) \<le> z * 100 + 300 * eps53"
proof -
  note e = eps53_bounds
  define y where "y = dbl (z * 100)"
  have y: "z * 100 - 300 * eps53 \<le> y" "y \<le> z * 100 + 300 * eps53"
    unfolding y_def using assms by (intro dbl_between; linarith)+
  have y0: "0 \<le> y" using y assms e by linarith
  have p: "percent z = \<lfloor>y\<rfloor>"
    unfolding percent_def jsParseInt_def fmul_def y_def[symmetric] using y0 by simp
  have "4 \<le> y" using y assms e by linarith
  then show "4 \<le> percent z" unfolding p by (simp add: le_floor_iff)
  have "y < 301" using y assms e by linarith
  then have "percent z < 301" unfolding p by (simp add: floor_less_iff)
  then show "percent z \<le> 300" by simp
  have "of_int \<lfloor>y\<rfloor> \<le> y" by simp
  then show "of_int (percent z) \<le> z * 100 + 300 * eps53" unfolding p using y by linarith
qed

lemma quarter_value:
  assumes "0 \<le> j" "j \<le> 13"
  shows "fdiv (of_int (25 * j)) 100 = of_int j / 4"
proof -
  have "(of_int (25 * j) :: rat) / 100 = of_int j / 4" by simp
  moreover have "dbl (of_int j / 4) = of_int j / 4"
    using assms by (intro dbl_quarter) simp_all
  ultimately show ?thesis unfolding fdiv_def by simp
qed

lemma percent_quarter:
  assumes "0 \<le> j" "j \<le> 13"
  shows "percent (of_int j / 4) = 25 * j"
proof -
  have "(of_int j :: rat) / 4 * 100 = of_int (100 * j) / 4" by simp
  moreover have "dbl (of_int (100 * j) / 4) = of_int (100 * j) / 4"
    using assms by (intro dbl_quarter) simp_all
  ultimately have "fmul (of_int j / 4) 100 = of_int (25 * j)" unfolding fmul_def by simp
  moreover have "(0::rat) \<le> of_int (25 * j)" using assms by simp
  ultimately show ?thesis unfolding percent_def jsParseInt_def
    by (simp only: if_True floor_of_int)
qed


lemma zoom_applyZoom: "zoom (applyZoom c z) = z"
  by (simp add: applyZoom_def)

lemma zoom_zoomReset:
  "zoom (zoomReset e c) = (if (key e = 96 \<or> key e = 48 \<or> key e = 192) \<and> ctrlKey e then 1 else zoom c)"
  by (simp add: zoomReset_def zoom_applyZoom)

lemma zoomOut_value:
  assumes "1 / 20 \<le> zoom c" "zoom c \<le> 3" "zoom c \<noteq> minZoom" "key e = 189" "ctrlKey e"
  defines "p \<equiv> percent (zoom c)"
  defines "j \<equiv> (if p mod 25 \<noteq> 0 then p div 25 else p div 25 - 1)"
  shows "zoom (zoomWithKeys e c) = (if j \<le> 0 then minZoom else of_int j / 4)"
    and "0 \<le> j" "j \<le> 12"
proof -
  have p: "4 \<le> p" "p \<le> 300" unfolding p_def using percent_range[OF assms(1,2)] by simp_all
  have pd: "0 \<le> p div 25" "p div 25 \<le> 12"
  proof -
    show "0 \<le> p div 25" using p(1) by (simp add: pos_imp_zdiv_nonneg_iff)
    have "p div 25 \<le> 300 div 25" using p(2) by (intro zdiv_mono1) simp_all
    then show "p div 25 \<le> 12" by simp
  qed
  show j0: "0 \<le> j"
  proof (cases "p mod 25 = 0")
    case True
    then have "p = 25 * (p div 25)" by (simp add: mod_eq_0_iff_dvd)
    moreover have "p div 25 \<le> 0 \<Longrightarrow> 25 * (p div 25) \<le> 0" by simp
    ultimately have "1 \<le> p div 25" using p(1) by (cases "p div 25 \<le> 0") simp_all
    then show ?thesis unfolding j_def using True by simp
  next
    case False
    then show ?thesis unfolding j_def using pd by simp
  qed
  show j12: "j \<le> 12" unfolding j_def using pd by simp
  have u1: "(if js_rem p 25 \<noteq> 0 then dec_to_25 p else p - 25) = 25 * j"
  proof (cases "p mod 25 = 0")
    case True
    then have "p = 25 * (p div 25)" by (simp add: mod_eq_0_iff_dvd)
    then show ?thesis unfolding j_def using True js_rem_25[of p] by simp
  next
    case False
    then show ?thesis unfolding j_def using js_rem_25[of p] by (simp add: dec_to_25_eq)
  qed
  have u2: "fdiv (of_int (25 * j)) 100 = of_int j / 4"
    using j0 j12 by (intro quarter_value) simp_all
  have "zoom (zoomWithKeys e c) =
     (if fdiv (of_int (25 * j)) 100 \<le> 0 then minZoom else fdiv (of_int (25 * j)) 100)"
    unfolding zoomWithKeys_def zoomIn_def Let_def p_def[symmetric] u1
    using assms(3,4,5) by (simp add: zoom_zoomReset zoom_applyZoom)
  then show "zoom (zoomWithKeys e c) = (if j \<le> 0 then minZoom else of_int j / 4)"
    unfolding u2 by simp
qed

lemma zoomIn_value:
  assumes "1 / 20 \<le> zoom c" "zoom c \<le> 3" "zoom c \<noteq> maxZoom" "key e = 187" "ctrlKey e"
  defines "p \<equiv> percent (zoom c)"
  defines "j \<equiv> (if p mod 25 \<noteq> 0 then (p + 24) div 25 else p div 25 + 1)"
  shows "zoom (zoomWithKeys e c) = (if 12 < j then maxZoom else of_int j / 4)"
    and "1 \<le> j" "j \<le> 13"
proof -
  have p: "4 \<le> p" "p \<le> 300" unfolding p_def using percent_range[OF assms(1,2)] by simp_all
  have pd: "0 \<le> p div 25" "p div 25 \<le> 12"
  proof -
    show "0 \<le> p div 25" using p(1) by (simp add: pos_imp_zdiv_nonneg_iff)
    have "p div 25 \<le> 300 div 25" using p(2) by (intro zdiv_mono1) simp_all
    then show "p div 25 \<le> 12" by simp
  qed
  have j: "1 \<le> j \<and> j \<le> 13"
  proof (cases "p mod 25 = 0")
    case True
    then show ?thesis unfolding j_def using pd by simp
  next
    case False
    then show ?thesis unfolding j_def using pd pred_div_25(2)[OF False] by simp
  qed
  then show j1: "1 \<le> j" and j13: "j \<le> 13" by simp_all
  have u1: "(if js_rem p 25 \<noteq> 0 then inc_to_25 p else p + 25) = 25 * j"
  proof (cases "p mod 25 = 0")
    case True
    then have "p = 25 * (p div 25)" by (simp add: mod_eq_0_iff_dvd)
    then show ?thesis unfolding j_def using True js_rem_25[of p] by simp
  next
    case False
    then show ?thesis unfolding j_def using js_rem_25[of p] by (simp add: inc_to_25_eq)
  qed
  have u2: "fdiv (of_int (25 * j)) 100 = of_int j / 4"
    using j1 j13 by (intro quarter_value) simp_all
  have "zoom (zoomWithKeys e c) =
     (if maxZoom < fdiv (of_int (25 * j)) 100 then maxZoom else fdiv (of_int (25 * j)) 100)"
    unfolding zoomWithKeys_def zoomIn_def Let_def p_def[symmetric] u1
    using assms(3,4,5) by (simp add: zoom_zoomReset zoom_applyZoom)
  then show "zoom (zoomWithKeys e c) = (if 12 < j then maxZoom else of_int j / 4)"
    unfolding u2 maxZoom_def by simp
qed

lemma zoomWithKeys_other:
  assumes "\<not> (key e = 189 \<and> ctrlKey e)" "\<not> (key e = 187 \<and> ctrlKey e)"
  shows "zoomWithKeys e c = zoomReset e c"
  using assms unfolding zoomWithKeys_def zoomIn_def by auto

lemma zoomWithKeys_range:
  assumes "1 / 20 \<le> zoom c" "zoom c \<le> 3"
  shows "1 / 20 \<le> zoom (zoomWithKeys e c) \<and> zoom (zoomWithKeys e c) \<le> 3"
proof -
  consider (out) "key e = 189" "ctrlKey e" | (inn) "key e = 187" "ctrlKey e"
    | (other) "\<not> (key e = 189 \<and> ctrlKey e)" "\<not> (key e = 187 \<and> ctrlKey e)" by blast
  then show ?thesis
  proof cases
    case out
    show ?thesis
    proof (cases "zoom c = minZoom")
      case True
      then have "zoomWithKeys e c = c" unfolding zoomWithKeys_def using out by simp
      then show ?thesis using assms by simp
    next
      case False
      define j where "j = (if percent (zoom c) mod 25 \<noteq> 0 then percent (zoom c) div 25
                           else percent (zoom c) div 25 - 1)"
      have z: "zoom (zoomWithKeys e c) = (if j \<le> 0 then minZoom else of_int j / 4)"
        and j: "0 \<le> j" "j \<le> 12"
        using zoomOut_value[OF assms False out] unfolding j_def by simp_all
      show ?thesis
      proof (cases "j \<le> 0")
        case True
        then show ?thesis unfolding z using minZoom_range by simp
      next
        case False
        then have "(1::rat) \<le> of_int j" "(of_int j :: rat) \<le> 12" using j by simp_all
        then show ?thesis unfolding z using False by simp
      qed
    qed
  next
    case inn
    show ?thesis
    proof (cases "zoom c = maxZoom")
      case True
      then have "zoomWithKeys e c = c" unfolding zoomWithKeys_def zoomIn_def using inn by simp
      then show ?thesis using assms by simp
    next
      case False
      define j where "j = (if percent (zoom c) mod 25 \<noteq> 0 then (percent (zoom c) + 24) div 25
                           else percent (zoom c) div 25 + 1)"
      have z: "zoom (zoomWithKeys e c) = (if 12 < j then maxZoom else of_int j / 4)"
        and j: "1 \<le> j" "j \<le> 13"
        using zoomIn_value[OF assms False inn] unfolding j_def by simp_all
      show ?thesis
      proof (cases "12 < j")
        case True
        then show ?thesis unfolding z maxZoom_def by simp
      next
        case False
        then have "(1::rat) \<le> of_int j" "(of_int j :: rat) \<le> 12" using j by simp_all
        then show ?thesis unfolding z using False by simp
      qed
    qed
  next
    case other
    show ?thesis unfolding zoomWithKeys_other[OF other] zoom_zoomReset using assms by simp
  qed
qed


lemma neutral_filters:
  "getUpdatedFilter neutral EBlur 0 = []" "getUpdatedFilter neutral EBrightness 50 = []"
  "getUpdatedFilter neutral ESaturation 50 = []" "getUpdatedFilter neutral EGammaR 45 = []"
  "getUpdatedFilter neutral EGammaG 45 = []" "getUpdatedFilter neutral EGammaB 45 = []"
  by (simp_all add: getUpdatedFilter_def neutral_def)

lemma no_entry_at_neutral:
  "Blur x \<notin> set (getUpdatedFilter e EBlur 0)"
  "Brightness x \<notin> set (getUpdatedFilter e EBrightness 50)"
  "Saturation x \<notin> set (getUpdatedFilter e ESaturation 50)"
  by (simp_all add: getUpdatedFilter_def Let_def)

lemma gamma_one_reads_zero: "Math_round (fdiv (gamma_value 1) (dbl (22 / 1000))) = 0"
proof -
  note e = eps53_bounds
  obtain k :: int where k: "0 \<le> k"
    "22 * (1::rat) / 100 < of_int k + 1 / 2 + 1053 * eps53"
    "of_int k - 1 / 2 - 1053 * eps53 \<le> 22 * (1::rat) / 100"
    "of_int k * 100 / 22 - 6000 * eps53 \<le> fdiv (gamma_value 1) (dbl (22 / 1000))"
    "fdiv (gamma_value 1) (dbl (22 / 1000)) \<le> of_int k * 100 / 22 + 6000 * eps53"
    using gamma_arith[of 1] by auto
  have "(of_int k :: rat) < 1" using k(3) e by linarith
  then have "k < 1" by linarith
  then have k0: "k = 0" using k(1) by simp
  define z where "z = fdiv (gamma_value 1) (dbl (22 / 1000))"
  have "(0::rat) \<le> z + 1 / 2" "z + 1 / 2 < 1"
    using k(4,5) e unfolding k0 z_def by simp_all
  then have "\<lfloor>z + 1 / 2\<rfloor> = 0" by (simp add: floor_unique)
  then show ?thesis unfolding Math_round_def z_def by simp
qed

lemma blur_seven_value: "fmul (fdiv 7 100) 100 = 7 + 1 / 2 ^ 50"
  unfolding fmul_def fdiv_def by code_simp

text \<open>
  Claim C1, as amended. For every slider value \<open>n\<close> in 0..100, whatever the other sliders and
  the opacity are: the filter list that \<^verbatim>\<open>getUpdatedFilter\<close> builds for blur, brightness or
  saturation is read back by \<^verbatim>\<open>getCurrentEffect\<close> within \<open>10\<^sup>-\<^sup>1\<^sup>2\<close> of \<open>n\<close> (the binary64
  rounding of the two formulas, not exactly \<open>n\<close>), and a gamma channel is read back within 2
  of \<open>n\<close> (the filter keeps one decimal of \<open>0.022 n\<close>). At the neutral point (blur 0,
  brightness 50, saturation 50, gamma 45) the read returns the neutral default, no Blur,
  Brightness or Saturation entry is produced, and from neutral sliders the list is empty.
\<close>

theorem effect_roundtrip_approx:
  fixes n :: int
  assumes "0 \<le> n" "n \<le> 100"
  shows "\<bar>blur (readBack a e EBlur (of_int n)) - of_int n\<bar> \<le> 1 / 10 ^ 12
       \<and> \<bar>brightness (readBack a e EBrightness (of_int n)) - of_int n\<bar> \<le> 1 / 10 ^ 12
       \<and> \<bar>saturation (readBack a e ESaturation (of_int n)) - of_int n\<bar> \<le> 1 / 10 ^ 12
       \<and> \<bar>ch_r (gamma (readBack a e EGammaR (of_int n))) - of_int n\<bar> \<le> 2
       \<and> \<bar>ch_g (gamma (readBack a e EGammaG (of_int n))) - of_int n\<bar> \<le> 2
       \<and> \<bar>ch_b (gamma (readBack a e EGammaB (of_int n))) - of_int n\<bar> \<le> 2
       \<and> blur (readBack a e EBlur 0) = 0
       \<and> brightness (readBack a e EBrightness 50) = 50
       \<and> saturation (readBack a e ESaturation 50) = 50
       \<and> ch_r (gamma (readBack a e EGammaR 45)) = 45
       \<and> ch_g (gamma (readBack a e EGammaG 45)) = 45
       \<and> ch_b (gamma (readBack a e EGammaB 45)) = 45
       \<and> (\<forall>x. Blur x \<notin> set (getUpdatedFilter e EBlur 0))
       \<and> (\<forall>x. Brightness x \<notin> set (getUpdatedFilter e EBrightness 50))
       \<and> (\<forall>x. Saturation x \<notin> set (getUpdatedFilter e ESaturation 50))
       \<and> getUpdatedFilter neutral EBlur 0 = []
       \<and> getUpdatedFilter neutral EBrightness 50 = []
       \<and> getUpdatedFilter neutral ESaturation 50 = []
       \<and> getUpdatedFilter neutral EGammaR 45 = []
       \<and> getUpdatedFilter neutral EGammaG 45 = []
       \<and> getUpdatedFilter neutral EGammaB 45 = []"
proof -
  define v :: rat where "v = of_int n"
  have v: "0 \<le> v" "v \<le> 100" unfolding v_def using assms by simp_all
  have b1: "\<bar>blur (readBack a e EBlur v) - v\<bar> \<le> 1 / 10 ^ 12"
    unfolding blur_read using blur_arith[OF v] v by (auto simp del: power_numeral)
  have b2: "\<bar>brightness (readBack a e EBrightness v) - v\<bar> \<le> 1 / 10 ^ 12"
    unfolding brightness_read using unit_arith[OF v] by (auto simp del: power_numeral)
  have b3: "\<bar>saturation (readBack a e ESaturation v) - v\<bar> \<le> 1 / 10 ^ 12"
    unfolding saturation_read using unit_arith[OF v] by (auto simp del: power_numeral)
  have g: "\<bar>Math_round (fdiv (gamma_value v) (dbl (22 / 1000))) - v\<bar> \<le> 2"
    unfolding v_def using assms by (rule gamma_roundtrip_int)
  have g45: "v \<noteq> 45 \<or> \<bar>45 - v\<bar> \<le> 2" by simp
  have g1: "\<bar>ch_r (gamma (readBack a e EGammaR v)) - v\<bar> \<le> 2"
    unfolding gamma_r_read using g by auto
  have g2: "\<bar>ch_g (gamma (readBack a e EGammaG v)) - v\<bar> \<le> 2"
    unfolding gamma_g_read using g by auto
  have g3: "\<bar>ch_b (gamma (readBack a e EGammaB v)) - v\<bar> \<le> 2"
    unfolding gamma_b_read using g by auto
  have n1: "blur (readBack a e EBlur 0) = 0" unfolding blur_read by simp
  have n2: "brightness (readBack a e EBrightness 50) = 50" unfolding brightness_read by simp
  have n3: "saturation (readBack a e ESaturation 50) = 50" unfolding saturation_read by simp
  have n4: "ch_r (gamma (readBack a e EGammaR 45)) = 45"
    unfolding gamma_r_read using gamma_roundtrip_45 by simp
  have n5: "ch_g (gamma (readBack a e EGammaG 45)) = 45"
    unfolding gamma_g_read using gamma_roundtrip_45 by simp
  have n6: "ch_b (gamma (readBack a e EGammaB 45)) = 45"
    unfolding gamma_b_read using gamma_roundtrip_45 by simp
  show ?thesis
    using b1 b2 b3 g1 g2 g3 n1 n2 n3 n4 n5 n6 neutral_filters no_entry_at_neutral
    unfolding v_def by blast
qed

text \<open>The theorem at slider value 7, all other sliders neutral.\<close>

theorem effect_roundtrip_approx_witness:
  "(0::int) \<le> 7 \<and> (7::int) \<le> 100
   \<and> \<bar>blur (readBack 1 neutral EBlur 7) - 7\<bar> \<le> 1 / 10 ^ 12
   \<and> \<bar>brightness (readBack 1 neutral EBrightness 7) - 7\<bar> \<le> 1 / 10 ^ 12
   \<and> \<bar>ch_r (gamma (readBack 1 neutral EGammaR 7)) - 7\<bar> \<le> 2"
  using effect_roundtrip_approx[of 7 1 neutral] by simp

text \<open>
  Claim C1 as stated fails: the gamma slider at 1 gives the filter value
  \<open>round(0.22) / 10 = 0\<close>, which is read back as 0.
\<close>

theorem gamma_roundtrip_counterexample:
  "ch_r (gamma (readBack 1 neutral EGammaR 1)) \<noteq> 1"
  unfolding gamma_r_read using gamma_one_reads_zero by simp

text \<open>
  The blur slider at 7 is read back as \<open>7.000000000000001\<close>: \<open>0.07 * 100\<close> is not 7 in binary64.
\<close>

lemma blur_seven_inexact: "blur (readBack 1 neutral EBlur 7) = 7 + 1 / 2 ^ 50"
proof -
  have "fdiv 7 100 \<noteq> 0"
  proof
    assume "fdiv 7 100 = 0"
    then have "fmul (fdiv 7 100) 100 = dbl 0" unfolding fmul_def by simp
    then show False unfolding blur_seven_value by (simp add: dbl_def)
  qed
  then show ?thesis unfolding blur_read using blur_seven_value by simp
qed


lemma percent_tenth: "percent (dbl (1 / 10)) = 10"
  unfolding percent_def fmul_def by code_simp

lemma tenth_value: "dbl (1 / 10) = 3602879701896397 / 36028797018963968"
  by code_simp

lemma percent_minZoom: "percent minZoom = 5"
  unfolding minZoom_value percent_def fmul_def by code_simp

lemma percent_five_eighths: "percent (5 / 8) = 62"
  unfolding percent_def fmul_def by code_simp

lemma zoom_canvasAt: "zoom (canvasAt z) = z"
  by (simp add: canvasAt_def zoom_applyZoom)

lemma key_ctrlMinus: "key ctrlMinus = 189" "ctrlKey ctrlMinus"
  by (simp_all add: ctrlMinus_def)

lemma zoom_out_tenth: "zoom (zoomWithKeys ctrlMinus (canvasAt (dbl (1 / 10)))) = minZoom"
proof -
  have "1 / 20 \<le> zoom (canvasAt (dbl (1 / 10)))" "zoom (canvasAt (dbl (1 / 10))) \<le> 3"
    "zoom (canvasAt (dbl (1 / 10))) \<noteq> minZoom"
    unfolding zoom_canvasAt tenth_value minZoom_value by simp_all
  from zoomOut_value(1)[OF this key_ctrlMinus] show ?thesis
    unfolding zoom_canvasAt percent_tenth by simp
qed

text \<open>
  Claim C3, as amended. Let the zoom lie in \<open>[0.05, 3]\<close>, differ from the minimum zoom
  \<^verbatim>\<open>minZoom\<close> (where the handler returns at once), and have a whole-percent form
  \<^verbatim>\<open>parseInt(zoom * 100)\<close> that is not a multiple of 25. If the whole-percent form is at
  least 25, one Ctrl+minus produces the zoom \<open>25 * (p div 25) / 100\<close>, whose whole-percent
  form is a multiple of 25, and which is at most the original zoom. If it is below 25, the
  result is \<^verbatim>\<open>minZoom\<close>.
\<close>

theorem zoom_out_lands_on_25:
  assumes "1 / 20 \<le> zoom c" "zoom c \<le> 3" "zoom c \<noteq> minZoom"
    and "js_rem (percent (zoom c)) 25 \<noteq> 0"
  shows "(25 \<le> percent (zoom c) \<longrightarrow>
            zoom (zoomWithKeys ctrlMinus c) = of_int (25 * (percent (zoom c) div 25)) / 100
          \<and> js_rem (percent (zoom (zoomWithKeys ctrlMinus c))) 25 = 0
          \<and> zoom (zoomWithKeys ctrlMinus c) \<le> zoom c)
       \<and> (percent (zoom c) < 25 \<longrightarrow> zoom (zoomWithKeys ctrlMinus c) = minZoom)"
proof -
  note e = eps53_bounds
  define p where "p = percent (zoom c)"
  define j where "j = p div 25"
  have nz: "p mod 25 \<noteq> 0" using assms(4) js_rem_25[of p] unfolding p_def by simp
  have z: "zoom (zoomWithKeys ctrlMinus c) = (if j \<le> 0 then minZoom else of_int j / 4)"
    and j: "0 \<le> j" "j \<le> 12"
    using zoomOut_value[OF assms(1,2,3) key_ctrlMinus] nz unfolding p_def j_def by simp_all
  have pj: "p = 25 * j + p mod 25" unfolding j_def by simp
  have r: "1 \<le> p mod 25" "p mod 25 < 25"
  proof -
    have "0 \<le> p mod 25" by simp
    then show "1 \<le> p mod 25" using nz by linarith
    show "p mod 25 < 25" by simp
  qed
  have small: "p < 25 \<Longrightarrow> j \<le> 0" using pj r j by linarith
  have big: "25 \<le> p \<Longrightarrow> 1 \<le> j" using pj r j by linarith
  have le: "of_int j / 4 \<le> zoom c"
  proof -
    have "of_int p \<le> zoom c * 100 + 300 * eps53"
      unfolding p_def using percent_range(3)[OF assms(1,2)] .
    moreover have "(of_int (25 * j + 1) :: rat) \<le> of_int p"
      unfolding of_int_le_iff using pj r by linarith
    ultimately show ?thesis using e by simp
  qed
  have pq: "percent (of_int j / 4) = 25 * j" using j by (intro percent_quarter) simp_all
  have m0: "js_rem (25 * j) 25 = 0" using js_rem_25[of "25 * j"] by simp
  show ?thesis
    unfolding p_def[symmetric] z using small big le pq m0 unfolding j_def[symmetric]
    by (auto simp del: of_int_mult)
qed

text \<open>
  The theorem at zoom 0.625 (whole-percent form 62, one Ctrl+minus gives 0.5) and at zoom
  0.1 (whole-percent form 10, one Ctrl+minus gives \<^verbatim>\<open>minZoom\<close>).
\<close>

theorem zoom_out_lands_on_25_witness:
  "1 / 20 \<le> zoom (canvasAt (5 / 8)) \<and> zoom (canvasAt (5 / 8)) \<le> 3
   \<and> zoom (canvasAt (5 / 8)) \<noteq> minZoom
   \<and> js_rem (percent (zoom (canvasAt (5 / 8)))) 25 \<noteq> 0
   \<and> 25 \<le> percent (zoom (canvasAt (5 / 8)))
   \<and> zoom (zoomWithKeys ctrlMinus (canvasAt (5 / 8))) = 1 / 2
   \<and> js_rem (percent (zoom (zoomWithKeys ctrlMinus (canvasAt (5 / 8))))) 25 = 0
   \<and> zoom (zoomWithKeys ctrlMinus (canvasAt (5 / 8))) \<le> zoom (canvasAt (5 / 8))
   \<and> 1 / 20 \<le> zoom (canvasAt (dbl (1 / 10))) \<and> zoom (canvasAt (dbl (1 / 10))) \<le> 3
   \<and> zoom (canvasAt (dbl (1 / 10))) \<noteq> minZoom
   \<and> js_rem (percent (zoom (canvasAt (dbl (1 / 10))))) 25 \<noteq> 0
   \<and> percent (zoom (canvasAt (dbl (1 / 10)))) < 25
   \<and> zoom (zoomWithKeys ctrlMinus (canvasAt (dbl (1 / 10)))) = minZoom"
proof -
  have h: "1 / 20 \<le> zoom (canvasAt (5 / 8))" "zoom (canvasAt (5 / 8)) \<le> 3"
    "zoom (canvasAt (5 / 8)) \<noteq> minZoom"
    "js_rem (percent (zoom (canvasAt (5 / 8)))) 25 \<noteq> 0"
    unfolding zoom_canvasAt percent_five_eighths minZoom_value by (simp_all add: js_rem_def)
  have p: "percent (zoom (canvasAt (5 / 8))) = 62" unfolding zoom_canvasAt percent_five_eighths ..
  have a: "25 \<le> percent (zoom (canvasAt (5 / 8)))
     \<and> zoom (zoomWithKeys ctrlMinus (canvasAt (5 / 8))) = 1 / 2
     \<and> js_rem (percent (zoom (zoomWithKeys ctrlMinus (canvasAt (5 / 8))))) 25 = 0
     \<and> zoom (zoomWithKeys ctrlMinus (canvasAt (5 / 8))) \<le> zoom (canvasAt (5 / 8))"
    using zoom_out_lands_on_25[OF h] unfolding p by simp
  have k: "1 / 20 \<le> zoom (canvasAt (dbl (1 / 10)))" "zoom (canvasAt (dbl (1 / 10))) \<le> 3"
    "zoom (canvasAt (dbl (1 / 10))) \<noteq> minZoom"
    "js_rem (percent (zoom (canvasAt (dbl (1 / 10))))) 25 \<noteq> 0"
    unfolding zoom_canvasAt percent_tenth unfolding tenth_value minZoom_value
    by (simp_all add: js_rem_def)
  have q: "percent (zoom (canvasAt (dbl (1 / 10)))) = 10" unfolding zoom_canvasAt percent_tenth ..
  have b: "percent (zoom (canvasAt (dbl (1 / 10)))) < 25
     \<and> zoom (zoomWithKeys ctrlMinus (canvasAt (dbl (1 / 10)))) = minZoom"
    using zoom_out_lands_on_25[OF k] unfolding q by simp
  show ?thesis using h k a b by blast
qed

text \<open>
  Claim C3 as stated fails. At zoom 0.1 (10 percent, an entry of the zoom menu) one
  Ctrl+minus gives \<^verbatim>\<open>minZoom\<close>, 0.05, whose whole-percent form 5 is not a multiple of 25.
\<close>

theorem zoom_out_counterexample:
  "js_rem (percent (zoom (canvasAt (dbl (1 / 10))))) 25 \<noteq> 0
   \<and> js_rem (percent (zoom (zoomWithKeys ctrlMinus (canvasAt (dbl (1 / 10)))))) 25 \<noteq> 0"
  unfolding zoom_out_tenth unfolding zoom_canvasAt percent_tenth percent_minZoom
  by (simp add: js_rem_def)

text \<open>
  Claim C6. From a zoom in \<open>[0.05, 3]\<close>, every sequence of key events handled by
  \<^verbatim>\<open>zoomWithKeys\<close> (Ctrl+minus and Ctrl+plus among them) leaves the zoom in \<open>[0.05, 3]\<close>.
\<close>

theorem zoom_keys_in_range:
  assumes "1 / 20 \<le> zoom c" "zoom c \<le> 3"
  shows "1 / 20 \<le> zoom (zoomKeys c es) \<and> zoom (zoomKeys c es) \<le> 3"
  using assms
proof (induction es arbitrary: c)
  case Nil
  then show ?case by (simp add: zoomKeys_def)
next
  case (Cons e es)
  have "1 / 20 \<le> zoom (zoomWithKeys e c) \<and> zoom (zoomWithKeys e c) \<le> 3"
    using Cons.prems by (rule zoomWithKeys_range)
  then have "1 / 20 \<le> zoom (zoomKeys (zoomWithKeys e c) es)
      \<and> zoom (zoomKeys (zoomWithKeys e c) es) \<le> 3"
    using Cons.IH by blast
  then show ?case by (simp add: zoomKeys_def)
qed

text \<open>The theorem from zoom 1 with Ctrl+minus, Ctrl+plus, Ctrl+plus.\<close>

theorem zoom_keys_in_range_witness:
  "1 / 20 \<le> zoom (canvasAt 1) \<and> zoom (canvasAt 1) \<le> 3
   \<and> 1 / 20 \<le> zoom (zoomKeys (canvasAt 1) [ctrlMinus, ctrlPlus, ctrlPlus])
   \<and> zoom (zoomKeys (canvasAt 1) [ctrlMinus, ctrlPlus, ctrlPlus]) \<le> 3"
  using zoom_keys_in_range[of "canvasAt 1" "[ctrlMinus, ctrlPlus, ctrlPlus]"]
  by (simp add: zoom_canvasAt)

section \<open>Shortcuts while a text input has the focus\<close>

lemma focus_suppresses:
  assumes "inputFocused s"
  shows "ctrZY api js e s = Inr s" "arrowKeys e s = s" "deleteKey e s = s"
    and "documentKeydown api js e s = Inr (keyZoom e s)"
  using assms by (simp_all add: ctrZY_def arrowKeys_def deleteKey_def documentKeydown_def andThen_def)

lemma zoom_out_from_one: "zoom (zoomWithKeys ctrlMinus (canvasAt 1)) = 3 / 4"
proof -
  have h: "1 / 20 \<le> zoom (canvasAt 1)" "zoom (canvasAt 1) \<le> 3" "zoom (canvasAt 1) \<noteq> minZoom"
    unfolding zoom_canvasAt minZoom_value by simp_all
  have "percent (of_int 4 / 4) = 25 * 4" by (intro percent_quarter) simp_all
  then have p: "percent 1 = 100" by simp
  show ?thesis using zoomOut_value(1)[OF h key_ctrlMinus] unfolding zoom_canvasAt p by simp
qed

text \<open>
  Claim C4: the code at the failing input. A text input has the focus, the zoom is 1, and
  Ctrl+minus is pressed. The undo/redo, arrow-key and Delete listeners leave the editor as
  it is; the \<^verbatim>\<open>keyZoom\<close> listener, registered without the focus test the others make, sets the
  zoom to 0.75.
\<close>

theorem zoom_chord_not_suppressed:
  "inputFocused editor0 \<and> zoom (view editor0) = 1
   \<and> ctrZY listStack noJSON ctrlMinus editor0 = Inr editor0
   \<and> arrowKeys ctrlMinus editor0 = editor0
   \<and> deleteKey ctrlMinus editor0 = editor0
   \<and> documentKeydown listStack noJSON ctrlMinus editor0
       = Inr (editor0\<lparr>view := zoomWithKeys ctrlMinus (view editor0)\<rparr>)
   \<and> zoom (zoomWithKeys ctrlMinus (view editor0)) = 3 / 4"
proof -
  have f: "inputFocused editor0" by (simp add: editor0_def)
  have v: "view editor0 = canvasAt 1" by (simp add: editor0_def)
  have a: "ctrZY listStack noJSON ctrlMinus editor0 = Inr editor0"
    using f by (rule focus_suppresses(1))
  have b: "arrowKeys ctrlMinus editor0 = editor0" using f by (rule focus_suppresses(2))
  have c: "deleteKey ctrlMinus editor0 = editor0" using f by (rule focus_suppresses(3))
  have d: "documentKeydown listStack noJSON ctrlMinus editor0
       = Inr (editor0\<lparr>view := zoomWithKeys ctrlMinus (view editor0)\<rparr>)"
    unfolding focus_suppresses(4)[OF f] keyZoom_def ..
  have z: "zoom (zoomWithKeys ctrlMinus (view editor0)) = 3 / 4"
    unfolding v by (rule zoom_out_from_one)
  have o: "zoom (view editor0) = 1" unfolding v by (rule zoom_canvasAt)
  show ?thesis using f o a b c d z by blast
qed


section \<open>Angle snapping\<close>


lemma arctan_twentieth: "0 < arctan (1 / 20)" "arctan (1 / 20) < pi / 32"
proof -
  show "0 < arctan (1 / 20)" using arctan_less_iff[of 0 "1 / 20"] by simp
  have "2 * arctan (1 / 20 :: real) = arctan (40 / 399)"
    using arctan_double[of "1 / 20 :: real"] by (simp add: power2_eq_square)
  moreover have "2 * arctan (40 / 399 :: real) = arctan (31920 / 157601)"
    using arctan_double[of "40 / 399 :: real"] by (simp add: power2_eq_square)
  moreover have "2 * arctan (31920 / 157601 :: real) = arctan (10061247840 / 23819188801)"
    using arctan_double[of "31920 / 157601 :: real"] by (simp add: power2_eq_square)
  moreover have "arctan (10061247840 / 23819188801 :: real) < arctan 1"
    unfolding arctan_less_iff by simp
  ultimately have "8 * arctan (1 / 20 :: real) < pi / 4" unfolding arctan_one by linarith
  then show "arctan (1 / 20) < pi / 32" by simp
qed

lemma snapAngle_100_5: "snapAngle 100 5 = 0"
proof -
  define a where "a = arctan (1 / 20) / pi * 180"
  have a0: "0 < a" unfolding a_def using arctan_twentieth(1) by simp
  have "arctan (1 / 20) * 180 < 6 * pi" using arctan_twentieth by linarith
  then have a1: "a < 6" unfolding a_def by (simp add: pos_divide_less_eq)
  have at: "atan2 5 100 / pi * 180 = a" unfolding atan2_def a_def by simp
  have f0: "\<lfloor>(a + 7.5) / 360\<rfloor> = 0" using a0 a1 by (intro floor_unique) simp_all
  have m: "js_fmod (a + 7.5) 360 = a + 7.5"
    unfolding js_fmod_def using a0 f0 by simp
  have f1: "\<lfloor>(a + 7.5) / 15\<rfloor> = 0" using a0 a1 by (intro floor_unique) simp_all
  have "jsParseInt ((a + 7.5) / 15) = 0" unfolding jsParseInt_def using a0 f1 by simp
  then show ?thesis unfolding snapAngle_def Let_def at m by simp
qed

lemma angleSnap_100_5: "angleSnap 0 0 100 5 = (sqrt 10025, 0)"
  unfolding angleSnap_def Let_def by (simp add: snapAngle_100_5)

lemma sqrt_10025: "100 < sqrt 10025" "sqrt 10025 < 101"
  by (rule real_less_rsqrt, simp) (rule real_less_lsqrt, simp_all)

lemma snapAngle_minus_45: "atan2 (- 100) 100 / pi * 180 = - 45" "snapAngle 100 (- 100) = - 30"
proof -
  have "arctan (- 1) = - (pi / 4)" using arctan_minus[of 1] arctan_one by simp
  then show at: "atan2 (- 100) 100 / pi * 180 = - 45" unfolding atan2_def by simp
  have m: "js_fmod (- 45 + 7.5) 360 = - 37.5" unfolding js_fmod_def by simp
  have "jsParseInt (- 37.5 / 15 :: real) = - 2" unfolding jsParseInt_def by simp
  then show "snapAngle 100 (- 100) = - 30" unfolding snapAngle_def Let_def at m by simp
qed


lemma drawLine_shift:
  "Option.bind (drawLine (pointerAt ax ay b) (pointerAt x y True)) lineToDraw =
     Some \<lparr>lx1 = ax, ly1 = ay, lx2 = fst (angleSnap ax ay x y), ly2 = snd (angleSnap ax ay x y)\<rparr>"
  by (simp add: drawLine_def line_mouse_down_def line_mouse_move_def line_mouse_up_def
      lineTool0_def pointerAt_def split: prod.split)

text \<open>
  Claim C2, as amended. A line is started at (0,0); with Shift held the pointer moves to
  (100,5) and the button is released. The committed line ends at \<open>(\<surd>10025, 0)\<close>, about
  \<open>(100.125, 0)\<close>: on the 0 degree ray, at the pointer's distance from the anchor.
\<close>

theorem snapped_line_endpoint:
  "Option.bind (drawLine (pointerAt 0 0 b) (pointerAt 100 5 True)) lineToDraw =
     Some \<lparr>lx1 = 0, ly1 = 0, lx2 = sqrt 10025, ly2 = 0\<rparr>
   \<and> 100 < sqrt 10025 \<and> sqrt 10025 < 101"
  unfolding drawLine_shift angleSnap_100_5 using sqrt_10025 by simp

text \<open>Claim C2 as stated fails: the committed endpoint is not (100,0).\<close>

theorem snapped_line_endpoint_counterexample:
  "Option.bind (drawLine (pointerAt 0 0 True) (pointerAt 100 5 True)) lineToDraw \<noteq>
     Some \<lparr>lx1 = 0, ly1 = 0, lx2 = 100, ly2 = 0\<rparr>"
  unfolding drawLine_shift angleSnap_100_5 using sqrt_10025 by simp

lemma angleSnap_minus_45:
  "angleSnap 0 0 100 (- 100) = (sqrt 20000 * (sqrt 3 / 2), - (sqrt 20000 / 2))"
proof -
  have "(- 30 * pi / 180 :: real) = - (pi / 6)" by simp
  then show ?thesis
    unfolding angleSnap_def Let_def
    by (simp add: snapAngle_minus_45 cos_30 sin_30)
qed

text \<open>
  Claim C5: the code at the failing input. From the anchor (0,0) with Shift held the
  pointer is at (100,-100): the polar angle of the vector is exactly -45 degrees, itself a
  multiple of 15. The handlers replace it by -30 degrees, in the line tool and in the path
  tool's preview alike: \<^verbatim>\<open>parseInt\<close> truncates \<open>(-45 + 7.5) / 15 = -2.5\<close> toward zero.
\<close>

theorem angle_snap_negative_angle:
  "atan2 (- 100) 100 / pi * 180 = - 45
   \<and> snapAngle 100 (- 100) = - 30
   \<and> Option.bind (drawLine (pointerAt 0 0 True) (pointerAt 100 (- 100) True)) lineToDraw =
       Some \<lparr>lx1 = 0, ly1 = 0, lx2 = sqrt 20000 * (sqrt 3 / 2), ly2 = - (sqrt 20000 / 2)\<rparr>
   \<and> shiftSnap (pointerAt 100 (- 100) True) [M 0 0] (L 100 (- 100)) =
       Some (L (sqrt 20000 * (sqrt 3 / 2)) (- (sqrt 20000 / 2)))"
  unfolding drawLine_shift angleSnap_minus_45
  using snapAngle_minus_45 angleSnap_minus_45
  by (simp add: shiftSnap_def pointerAt_def)


section \<open>Proximity snapping and cancelling in the path tool\<close>

lemma inRange_of_distance:
  assumes "distance (x, y) (a, b) \<le> 10"
  shows "inRange 10 x y a b"
proof -
  have d: "sqrt ((x - a)\<^sup>2 + (y - b)\<^sup>2) \<le> 10" using assms unfolding distance_def by simp
  have "sqrt ((x - a)\<^sup>2) \<le> sqrt ((x - a)\<^sup>2 + (y - b)\<^sup>2)" by (rule real_sqrt_le_mono) simp
  then have "\<bar>x - a\<bar> \<le> sqrt ((x - a)\<^sup>2 + (y - b)\<^sup>2)" by (simp only: real_sqrt_abs)
  then have 1: "\<bar>x - a\<bar> \<le> 10" using d by linarith
  have "sqrt ((y - b)\<^sup>2) \<le> sqrt ((x - a)\<^sup>2 + (y - b)\<^sup>2)" by (rule real_sqrt_le_mono) simp
  then have "\<bar>y - b\<bar> \<le> sqrt ((x - a)\<^sup>2 + (y - b)\<^sup>2)" by (simp only: real_sqrt_abs)
  then have 2: "\<bar>y - b\<bar> \<le> 10" using d by linarith
  show ?thesis unfolding inRange_def using 1 2 by simp
qed

lemma shiftSnap_some:
  assumes "p \<noteq> []"
  shows "\<exists>u1. shiftSnap e p u = Some u1"
proof (cases "shiftKey e")
  case True
  obtain a b where ab: "elems12 (last p) = (a, b)" by (cases "elems12 (last p)")
  obtain c d where cd: "angleSnap a b (pointerX e) (pointerY e) = (c, d)"
    by (cases "angleSnap a b (pointerX e) (pointerY e)")
  show ?thesis using True assms ab cd by (simp add: shiftSnap_def)
next
  case False
  then show ?thesis by (simp add: shiftSnap_def)
qed

lemma snapTarget_first:
  assumes "\<forall>r\<in>set xs. \<not> inRange 10 x y (fst (snapPoint r)) (snd (snapPoint r))"
    and "inRange 10 x y (fst (snapPoint q)) (snd (snapPoint q))"
  shows "snapTarget x y (xs @ q # ys) = Some (snapPoint q)"
  using assms by (induction xs) simp_all

lemma snapTarget_some:
  assumes "q \<in> set ps" "inRange 10 x y (fst (snapPoint q)) (snd (snapPoint q))"
  shows "\<exists>r\<in>set ps. snapTarget x y ps = Some (snapPoint r)
           \<and> inRange 10 x y (fst (snapPoint r)) (snd (snapPoint r))"
  using assms by (induction ps) auto

lemma previewMove_snap:
  assumes "\<not> isMouseDown s" "snapTarget (pointerX e) (pointerY e) (butlast p) = Some t"
  shows "previewMove e i p s =
     Some (s\<lparr>updatedPath := Some (L (fst t) (snd t)), paths := (paths s)(i \<mapsto> p @ [L (fst t) (snd t)])\<rparr>)"
proof -
  have ne: "butlast p \<noteq> []" using assms(2) by (cases "butlast p") simp_all
  then have p: "p \<noteq> []" "1 < length p" by (cases p; auto)+
  obtain u1 where u1: "shiftSnap e p (L (pointerX e) (pointerY e)) = Some u1"
    using shiftSnap_some[OF p(1)] by blast
  have "proximitySnap e p u1 = L (fst t) (snd t)"
    unfolding proximitySnap_def using p(2) assms(2) by (cases t) simp
  then show ?thesis unfolding previewMove_def u1 using assms(1) by (simp add: Let_def)
qed

text \<open>
  Claim C9, as amended. A segment is previewed: the path tool is drawing, not editing a
  curve, the button is up. Let \<open>q\<close> be a placed point other than the most recently placed
  one (the loop leaves out the last command that remains after the preview is popped),
  and let the pointer be within 10 pixels of \<open>q\<close>. Then the previewed endpoint is set
  exactly to the coordinates of a placed point within 10 pixels of the pointer on each
  axis: the first such point in path order, which is \<open>q\<close> itself when no earlier point is
  in range.
\<close>

theorem proximity_snap:
  assumes "isDrawingPathMode s" "isDrawingPath s" "\<not> isDrawingCurve s" "\<not> isMouseDown s"
    and "pathToDraw s = Some i" "paths s i = Some p0"
    and "butlast (butlast p0) = xs @ q # ys"
    and "distance (pointerX e, pointerY e) (snapPoint q) \<le> 10"
  shows "\<exists>s' r. path_mouse_move e s = Some s'
           \<and> pathOf s' = Some (butlast p0 @ [L (fst (snapPoint r)) (snd (snapPoint r))])
           \<and> r \<in> set (butlast (butlast p0))
           \<and> inRange 10 (pointerX e) (pointerY e) (fst (snapPoint r)) (snd (snapPoint r))
           \<and> snapTarget (pointerX e) (pointerY e) (butlast (butlast p0)) = Some (snapPoint r)
           \<and> ((\<forall>r'\<in>set xs. \<not> inRange 10 (pointerX e) (pointerY e)
                                  (fst (snapPoint r')) (snd (snapPoint r')))
                \<longrightarrow> snapPoint r = snapPoint q)"
proof -
  let ?x = "pointerX e" and ?y = "pointerY e" and ?ps = "butlast (butlast p0)"
  have qr: "inRange 10 ?x ?y (fst (snapPoint q)) (snd (snapPoint q))"
    using assms(8) by (cases "snapPoint q") (simp add: inRange_of_distance)
  have "q \<in> set ?ps" unfolding assms(7) by simp
  from snapTarget_some[OF this qr] obtain r where r: "r \<in> set ?ps"
    "snapTarget ?x ?y ?ps = Some (snapPoint r)"
    "inRange 10 ?x ?y (fst (snapPoint r)) (snd (snapPoint r))" by blast
  have m: "path_mouse_move e s = previewMove e i (butlast p0) s"
    using assms(1-6) by (simp add: path_mouse_move_def)
  let ?s' = "s\<lparr>updatedPath := Some (L (fst (snapPoint r)) (snd (snapPoint r))),
              paths := (paths s)(i \<mapsto> butlast p0 @ [L (fst (snapPoint r)) (snd (snapPoint r))])\<rparr>"
  have s': "path_mouse_move e s = Some ?s'"
    unfolding m using assms(4) r(2) by (rule previewMove_snap)
  have po: "pathOf ?s' = Some (butlast p0 @ [L (fst (snapPoint r)) (snd (snapPoint r))])"
    unfolding pathOf_def using assms(5) by simp
  have fst: "(\<forall>r'\<in>set xs. \<not> inRange 10 ?x ?y (fst (snapPoint r')) (snd (snapPoint r')))
       \<longrightarrow> snapPoint r = snapPoint q"
  proof
    assume "\<forall>r'\<in>set xs. \<not> inRange 10 ?x ?y (fst (snapPoint r')) (snd (snapPoint r'))"
    from snapTarget_first[OF this qr, of ys] show "snapPoint r = snapPoint q"
      using r(2) unfolding assms(7) by simp
  qed
  show ?thesis using s' po r fst by blast
qed


lemma previewing_fields:
  "isDrawingPathMode (previewing p)" "isDrawingPath (previewing p)"
  "\<not> isDrawingCurve (previewing p)" "\<not> isMouseDown (previewing p)"
  "pathToDraw (previewing p) = Some 0" "paths (previewing p) 0 = Some p"
  "onCanvas (previewing p) = [0]"
  by (simp_all add: previewing_def pathTool0_def)

text \<open>
  The theorem on the path \<open>M 0 0, L 100 0, L 100 100\<close> with its preview, the pointer at (3,4):
  the preview snaps to the first point, (0,0), and the shape closes.
\<close>

theorem proximity_snap_witness:
  "isDrawingPathMode (previewing [M 0 0, L 100 0, L 100 100, L 50 50])
   \<and> isDrawingPath (previewing [M 0 0, L 100 0, L 100 100, L 50 50])
   \<and> \<not> isDrawingCurve (previewing [M 0 0, L 100 0, L 100 100, L 50 50])
   \<and> \<not> isMouseDown (previewing [M 0 0, L 100 0, L 100 100, L 50 50])
   \<and> pathToDraw (previewing [M 0 0, L 100 0, L 100 100, L 50 50]) = Some 0
   \<and> paths (previewing [M 0 0, L 100 0, L 100 100, L 50 50]) 0
       = Some [M 0 0, L 100 0, L 100 100, L 50 50]
   \<and> butlast (butlast [M 0 0, L 100 0, L 100 100, L 50 50]) = [] @ M 0 0 # [L 100 0]
   \<and> distance (pointerX (pointerAt 3 4 False), pointerY (pointerAt 3 4 False)) (snapPoint (M 0 0)) \<le> 10
   \<and> Option.bind (path_mouse_move (pointerAt 3 4 False)
                     (previewing [M 0 0, L 100 0, L 100 100, L 50 50])) pathOf
       = Some [M 0 0, L 100 0, L 100 100, L 0 0]"
proof -
  let ?p = "[M 0 0, L 100 0, L 100 100, L 50 50]"
  let ?e = "pointerAt 3 4 False"
  have b: "butlast (butlast ?p) = [] @ M 0 0 # [L 100 0]" by simp
  have "sqrt 25 = 5" by (rule real_sqrt_unique) simp_all
  then have d: "distance (pointerX ?e, pointerY ?e) (snapPoint (M 0 0)) \<le> 10"
    by (simp add: pointerAt_def distance_def)
  from proximity_snap[OF previewing_fields(1-6) b d]
  obtain s' r where r: "path_mouse_move ?e (previewing ?p) = Some s'"
    "pathOf s' = Some (butlast ?p @ [L (fst (snapPoint r)) (snd (snapPoint r))])"
    and r3: "(\<forall>r'\<in>set []. \<not> inRange 10 (pointerX ?e) (pointerY ?e)
                (fst (snapPoint r')) (snd (snapPoint r'))) \<longrightarrow> snapPoint r = snapPoint (M 0 0)"
    by blast
  from r3 have "snapPoint r = snapPoint (M 0 0)" by simp
  note r = r this
  have "Option.bind (path_mouse_move ?e (previewing ?p)) pathOf = Some [M 0 0, L 100 0, L 100 100, L 0 0]"
    unfolding r(1) using r(2) unfolding r(3) by simp
  then show ?thesis using previewing_fields(1-6)[of ?p] b d by blast
qed

text \<open>
  Claim C9 as stated fails. The path is \<open>M 0 0, L 100 0\<close> with its preview; the pointer at
  (100,3) is 3 pixels from the placed point (100,0), the most recently placed one. The
  preview stays at the pointer.
\<close>

theorem proximity_snap_counterexample:
  "distance (100, 3) (snapPoint (L 100 0)) \<le> 10
   \<and> L 100 0 \<in> set (butlast [M 0 0, L 100 0, L 100 3])
   \<and> Option.bind (path_mouse_move (pointerAt 100 3 False) (previewing [M 0 0, L 100 0, L 100 3]))
        pathOf = Some [M 0 0, L 100 0, L 100 3]"
proof -
  have "sqrt 9 \<le> 10" by (rule real_le_lsqrt) simp_all
  then have d: "distance (100, 3) (snapPoint (L 100 0)) \<le> 10" by (simp add: distance_def)
  have "path_mouse_move (pointerAt 100 3 False) (previewing [M 0 0, L 100 0, L 100 3])
      = Some ((previewing [M 0 0, L 100 0, L 100 3])
              \<lparr>updatedPath := Some (L 100 3),
                paths := (paths (previewing [M 0 0, L 100 0, L 100 3]))(0 \<mapsto> [M 0 0, L 100 0, L 100 3])\<rparr>)"
    by (simp add: path_mouse_move_def previewMove_def shiftSnap_def proximitySnap_def
        previewing_fields pointerAt_def inRange_def Let_def)
  then have "Option.bind (path_mouse_move (pointerAt 100 3 False) (previewing [M 0 0, L 100 0, L 100 3]))
        pathOf = Some [M 0 0, L 100 0, L 100 3]"
    by (simp add: pathOf_def previewing_fields)
  then show ?thesis using d by simp
qed

text \<open>
  Claim C7. While a path is being drawn, Escape and a pointer-down outside the canvas
  both run \<^verbatim>\<open>cancelDrawing\<close>. It removes the last command of the path array, the segment
  being previewed, and nothing else. If at least 2 commands remain the path object stays
  on the canvas with the shortened array; if fewer than 2 remain the object is removed
  from the canvas. The path of a single click, \<open>M\<close> and its preview, is removed.
\<close>

theorem cancel_path:
  assumes "isDrawingPath s" "pathToDraw s = Some i" "paths s i = Some p"
  shows "path_keydown escape s = cancelDrawing s
       \<and> path_document_mousedown False s = cancelDrawing s
       \<and> (\<exists>s'. cancelDrawing s = Some s'
            \<and> pathToDraw s' = None \<and> \<not> isDrawingPath s'
            \<and> paths s' = (paths s)(i \<mapsto> butlast p)
            \<and> (2 \<le> length (butlast p) \<longrightarrow> onCanvas s' = onCanvas s)
            \<and> (length (butlast p) < 2 \<longrightarrow>
                  onCanvas s' = removeAll i (onCanvas s) \<and> i \<notin> set (onCanvas s'))
            \<and> (\<forall>a b c d. p = [M a b, L c d] \<longrightarrow> i \<notin> set (onCanvas s')))"
proof -
  have 1: "path_keydown escape s = cancelDrawing s"
    using assms(1) by (simp add: path_keydown_def escape_def)
  have 2: "path_document_mousedown False s = cancelDrawing s"
    using assms(1) by (simp add: path_document_mousedown_def)
  have 3: "\<exists>s'. cancelDrawing s = Some s'
            \<and> pathToDraw s' = None \<and> \<not> isDrawingPath s'
            \<and> paths s' = (paths s)(i \<mapsto> butlast p)
            \<and> (2 \<le> length (butlast p) \<longrightarrow> onCanvas s' = onCanvas s)
            \<and> (length (butlast p) < 2 \<longrightarrow>
                  onCanvas s' = removeAll i (onCanvas s) \<and> i \<notin> set (onCanvas s'))
            \<and> (\<forall>a b c d. p = [M a b, L c d] \<longrightarrow> i \<notin> set (onCanvas s'))"
    using assms(2,3) by (auto simp: cancelDrawing_def Let_def)
  show ?thesis using 1 2 3 by blast
qed

lemma first_click:
  "path_mouse_down 0 (pointerAt 10 10 False) pathTool0 =
     Some (pathTool0\<lparr>isMouseDown := True, isDrawingPath := True, pathToDraw := Some 0,
                     paths := [0 \<mapsto> [M 10 10, L 10 10]], onCanvas := [0]\<rparr>)"
  by (simp add: path_mouse_down_def pathTool0_def pointerAt_def)

text \<open>
  The theorem after a single click at (10,10), where Escape removes the path from the
  canvas, and on the path \<open>M 0 0, L 10 0\<close> with its preview, where Escape leaves
  \<open>M 0 0, L 10 0\<close> on the canvas.
\<close>

theorem cancel_path_witness:
  "Option.bind (path_mouse_down 0 (pointerAt 10 10 False) pathTool0) pathOf
     = Some [M 10 10, L 10 10]
   \<and> Option.bind (Option.bind (path_mouse_down 0 (pointerAt 10 10 False) pathTool0)
        (path_keydown escape)) (\<lambda>s. Some (onCanvas s)) = Some []
   \<and> isDrawingPath (previewing [M 0 0, L 10 0, L 20 0])
   \<and> pathToDraw (previewing [M 0 0, L 10 0, L 20 0]) = Some 0
   \<and> paths (previewing [M 0 0, L 10 0, L 20 0]) 0 = Some [M 0 0, L 10 0, L 20 0]
   \<and> Option.bind (path_keydown escape (previewing [M 0 0, L 10 0, L 20 0]))
        (\<lambda>s. Some (onCanvas s, paths s 0)) = Some ([0], Some [M 0 0, L 10 0])"
proof -
  let ?s1 = "pathTool0\<lparr>isMouseDown := True, isDrawingPath := True, pathToDraw := Some 0,
                     paths := [0 \<mapsto> [M 10 10, L 10 10]], onCanvas := [0]\<rparr>"
  have h1: "isDrawingPath ?s1" "pathToDraw ?s1 = Some 0" "paths ?s1 0 = Some [M 10 10, L 10 10]"
    by simp_all
  from cancel_path[OF h1] obtain s' where s':
    "path_keydown escape ?s1 = Some s'" "onCanvas s' = removeAll 0 (onCanvas ?s1)"
    by auto
  have a: "Option.bind (path_mouse_down 0 (pointerAt 10 10 False) pathTool0) pathOf
     = Some [M 10 10, L 10 10]"
    unfolding first_click by (simp add: pathOf_def)
  have b: "Option.bind (Option.bind (path_mouse_down 0 (pointerAt 10 10 False) pathTool0)
        (path_keydown escape)) (\<lambda>s. Some (onCanvas s)) = Some []"
    unfolding first_click using s' by simp
  let ?p = "[M 0 0, L 10 0, L 20 0]"
  from cancel_path[OF previewing_fields(2,5,6)[of ?p]] obtain s2 where s2:
    "path_keydown escape (previewing ?p) = Some s2" "onCanvas s2 = onCanvas (previewing ?p)"
    "paths s2 = (paths (previewing ?p))(0 \<mapsto> butlast ?p)"
    by auto
  have c: "Option.bind (path_keydown escape (previewing ?p))
        (\<lambda>s. Some (onCanvas s, paths s 0)) = Some ([0], Some [M 0 0, L 10 0])"
    unfolding s2(1) using s2(2,3) by (simp add: previewing_fields)
  show ?thesis using a b c previewing_fields(2,5,6)[of ?p] by blast
qed


section \<open>The length of the snapped vector\<close>







lemma no_rational_square_10025: "r * r \<noteq> (10025 :: rat)"
proof
  assume eq: "r * r = 10025"
  obtain a b where ab: "quotient_of r = (a, b)" by (cases "quotient_of r")
  have b0: "0 < b" using ab by (rule quotient_of_denom_pos)
  have cop: "coprime a b" using ab by (rule quotient_of_coprime)
  have r: "r = of_int a / of_int b" using ab by (rule quotient_of_div)
  have "(of_int (a * a) :: rat) = of_int (10025 * (b * b))"
    using eq b0 unfolding r by (simp add: field_simps)
  then have e: "a * a = 10025 * (b * b)" by (simp only: of_int_eq_iff)
  then have "b dvd a * a" by simp
  moreover have "coprime b (a * a)" using cop by (simp add: ac_simps)
  ultimately have "is_unit b" using coprime_common_divisor[of b "a * a" b] by simp
  then have b1: "b = 1" using b0 by simp
  have aa: "\<bar>a\<bar> * \<bar>a\<bar> = 10025" using e unfolding b1 by simp
  show False
  proof (cases "\<bar>a\<bar> \<le> 100")
    case True
    then have "\<bar>a\<bar> * \<bar>a\<bar> \<le> 100 * 100" by (intro mult_mono) simp_all
    then show False using aa by simp
  next
    case False
    then have "101 \<le> \<bar>a\<bar>" by simp
    then have "101 * 101 \<le> \<bar>a\<bar> * \<bar>a\<bar>" by (intro mult_mono) simp_all
    then show False using aa by simp
  qed
qed

text \<open>
  What the rounding means for the scenario of claim C2: the pointer (100,5) is at distance
  \<open>\<surd>10025\<close> from the anchor (0,0), and the stored endpoint is \<open>(r, 0)\<close> with a binary64
  number \<open>r\<close>. No rational \<open>r\<close> puts it at that distance.
\<close>

lemma no_rational_endpoint_at_distance:
  "distance (of_rat r, 0) (0, 0) \<noteq> distance (100, 5) (0, 0)"
proof
  assume "distance (of_rat r, 0) (0, 0) = distance (100, 5) (0, 0)"
  then have "\<bar>of_rat r :: real\<bar> = sqrt 10025" by (simp add: distance_def)
  then have "\<bar>of_rat r :: real\<bar>\<^sup>2 = (sqrt 10025)\<^sup>2" by (rule arg_cong)
  moreover have "\<bar>of_rat r :: real\<bar>\<^sup>2 = (of_rat r)\<^sup>2" by (rule power2_abs)
  moreover have "(sqrt 10025)\<^sup>2 = (10025 :: real)" by (rule real_sqrt_pow2) simp
  ultimately have "(of_rat r :: real)\<^sup>2 = 10025" by (simp only:)
  then have "(of_rat (r * r) :: real) = of_rat 10025"
    by (simp add: power2_eq_square of_rat_mult)
  then have "r * r = 10025" by (simp only: of_rat_eq_iff)
  then show False using no_rational_square_10025 by simp
qed



section \<open>Undo and redo on a malformed snapshot\<close>

lemma undo_returns: "\<exists>s'. undo api js s = Inr s'"
  unfolding undo_def by (cases "undo_try api js (s\<lparr>console := console s @ [''undo'']\<rparr>)") simp_all

lemma redo_returns: "\<exists>s'. redo api js s = Inr s'"
  unfolding redo_def by (cases "redo_try api js (s\<lparr>console := console s @ [''redo'']\<rparr>)") simp_all

text \<open>
  Claim C8. \<^verbatim>\<open>undo\<close> and \<^verbatim>\<open>redo\<close> never let an exception out. If the snapshot taken from
  the stack does not parse, the handler returns normally and the canvas (its objects and
  the active object) and the zoom are as before. For a snapshot that is not the empty
  string the resulting state is given in full: \<^verbatim>\<open>console.error\<close> has logged the failure, and
  the stack's own \<^verbatim>\<open>undo()\<close> or \<^verbatim>\<open>redo()\<close> has run before the parse. (An empty string is
  falsy and is not even parsed.)
\<close>

theorem malformed_snapshot_is_skipped:
  "(\<exists>s'. undo api js s = Inr s') \<and> (\<exists>s'. redo api js s = Inr s')
   \<and> (undoValues api (history s) \<noteq> [] \<and> last (undoValues api (history s)) \<noteq> []
        \<and> parse js (last (undoValues api (history s))) = None \<longrightarrow>
        undo api js s = Inr (s\<lparr>history := stackUndo api (history s),
                               console := console s @ [''undo'', ''undo failed'']\<rparr>))
   \<and> (redoValues api (history s) \<noteq> [] \<and> last (redoValues api (history s)) \<noteq> []
        \<and> parse js (last (redoValues api (history s))) = None \<longrightarrow>
        redo api js s = Inr (s\<lparr>history := stackRedo api (history s),
                               console := console s @ [''redo'', ''redo failed'']\<rparr>))
   \<and> (\<forall>s'. parse js (last (undoValues api (history s))) = None \<and> undo api js s = Inr s' \<longrightarrow>
        objects s' = objects s \<and> activeObject s' = activeObject s \<and> view s' = view s)
   \<and> (\<forall>s'. parse js (last (redoValues api (history s))) = None \<and> redo api js s = Inr s' \<longrightarrow>
        objects s' = objects s \<and> activeObject s' = activeObject s \<and> view s' = view s)"
proof (intro conjI)
  show "\<exists>s'. undo api js s = Inr s'" by (rule undo_returns)
  show "\<exists>s'. redo api js s = Inr s'" by (rule redo_returns)
  show "undoValues api (history s) \<noteq> [] \<and> last (undoValues api (history s)) \<noteq> []
        \<and> parse js (last (undoValues api (history s))) = None \<longrightarrow>
        undo api js s = Inr (s\<lparr>history := stackUndo api (history s),
                               console := console s @ [''undo'', ''undo failed'']\<rparr>)"
    by (auto simp: undo_def undo_try_def restore_def Let_def)
  show "redoValues api (history s) \<noteq> [] \<and> last (redoValues api (history s)) \<noteq> []
        \<and> parse js (last (redoValues api (history s))) = None \<longrightarrow>
        redo api js s = Inr (s\<lparr>history := stackRedo api (history s),
                               console := console s @ [''redo'', ''redo failed'']\<rparr>)"
    by (auto simp: redo_def redo_try_def restore_def Let_def)
  show "\<forall>s'. parse js (last (undoValues api (history s))) = None \<and> undo api js s = Inr s' \<longrightarrow>
        objects s' = objects s \<and> activeObject s' = activeObject s \<and> view s' = view s"
    by (auto simp: undo_def undo_try_def restore_def Let_def split: if_splits)
  show "\<forall>s'. parse js (last (redoValues api (history s))) = None \<and> redo api js s = Inr s' \<longrightarrow>
        objects s' = objects s \<and> activeObject s' = activeObject s \<and> view s' = view s"
    by (auto simp: redo_def redo_try_def restore_def Let_def split: if_splits)
qed

text \<open>
  The theorem on a stack whose only undo entry is the malformed snapshot \<open>{\<close>, and on one
  whose only redo entry is.
\<close>

theorem malformed_snapshot_is_skipped_witness:
  "undoValues listStack (history editor0) \<noteq> []
   \<and> last (undoValues listStack (history editor0)) \<noteq> []
   \<and> parse noJSON (last (undoValues listStack (history editor0))) = None
   \<and> undo listStack noJSON editor0
       = Inr (editor0\<lparr>history := ([], [''{'']), console := [''undo'', ''undo failed'']\<rparr>)
   \<and> redoValues listStack (history (editor0\<lparr>history := ([], [''{''])\<rparr>)) \<noteq> []
   \<and> last (redoValues listStack (history (editor0\<lparr>history := ([], [''{''])\<rparr>))) \<noteq> []
   \<and> parse noJSON (last (redoValues listStack (history (editor0\<lparr>history := ([], [''{''])\<rparr>)))) = None
   \<and> redo listStack noJSON (editor0\<lparr>history := ([], [''{''])\<rparr>)
       = Inr (editor0\<lparr>history := ([''{''], []), console := [''redo'', ''redo failed'']\<rparr>)"
proof -
  have u: "undoValues listStack (history editor0) \<noteq> []
     \<and> last (undoValues listStack (history editor0)) \<noteq> []
     \<and> parse noJSON (last (undoValues listStack (history editor0))) = None"
    by (simp add: listStack_def noJSON_def editor0_def)
  have r: "redoValues listStack (history (editor0\<lparr>history := ([], [''{''])\<rparr>)) \<noteq> []
     \<and> last (redoValues listStack (history (editor0\<lparr>history := ([], [''{''])\<rparr>))) \<noteq> []
     \<and> parse noJSON (last (redoValues listStack (history (editor0\<lparr>history := ([], [''{''])\<rparr>)))) = None"
    by (simp add: listStack_def noJSON_def editor0_def)
  have a: "undo listStack noJSON editor0
       = Inr (editor0\<lparr>history := ([], [''{'']), console := [''undo'', ''undo failed'']\<rparr>)"
    using malformed_snapshot_is_skipped[of listStack noJSON editor0] u
    by (simp add: listStack_def editor0_def)
  have b: "redo listStack noJSON (editor0\<lparr>history := ([], [''{''])\<rparr>)
       = Inr (editor0\<lparr>history := ([''{''], []), console := [''redo'', ''redo failed'']\<rparr>)"
    using malformed_snapshot_is_skipped[of listStack noJSON "editor0\<lparr>history := ([], [''{''])\<rparr>"] r
    by (simp add: listStack_def editor0_def)
  show ?thesis using u r a b by blast
qed

end
